theory Spec2Isabelle
  imports Main "HOL-Library.AList"
begin

section \<open>JavaScript values and strings\<close>

text \<open>
  The validator of \<^verbatim>\<open>circuit-validator.js\<close> receives what \<^verbatim>\<open>JSON.parse\<close> returns.
  A parsed document is a value of type \<open>json\<close>. An object is the list of its own
  properties in enumeration order (its keys are distinct). The value \<^verbatim>\<open>undefined\<close>
  never occurs inside a document; reading a property that is absent gives it, and it
  is modelled by \<open>None\<close>. Of a number only its type and whether it is zero are ever
  observed by the validator.

  Members inherited from the prototypes (\<^verbatim>\<open>toString\<close>, \<^verbatim>\<open>constructor\<close>, ...) are not
  modelled: reading a property gives the own property or \<^verbatim>\<open>undefined\<close>, and a plain
  object used as a dictionary is an association list. That is what the code does as
  long as no key it looks up by a computed name (a bus id, a component type, a pin
  name) is the name of an inherited member; the bus ids of the breadboard generator,
  \<^verbatim>\<open>bus<col>-top\<close>, \<^verbatim>\<open>bus<col>-bottom\<close>, \<^verbatim>\<open>rail-top-<row>\<close> and \<^verbatim>\<open>rail-bottom-<row>\<close>,
  are not. The diagnostics' human-readable \<^verbatim>\<open>message\<close> text and the console output
  are not modelled either; every other field of a diagnostic is.
\<close>

datatype json =
    JNull
  | JBool bool
  | JNum int
  | JStr string
  | JArr "json list"
  | JObj "(string \<times> json) list"

text \<open>Truthiness of a value, and of a value that may be \<^verbatim>\<open>undefined\<close>.\<close>

fun truthy :: "json \<Rightarrow> bool" where
  "truthy JNull = False"
| "truthy (JBool b) = b"
| "truthy (JNum n) = (n \<noteq> 0)"
| "truthy (JStr s) = (s \<noteq> [])"
| "truthy (JArr xs) = True"
| "truthy (JObj kvs) = True"

definition truthy_opt :: "json option \<Rightarrow> bool" where
  "truthy_opt v = (case v of None \<Rightarrow> False | Some x \<Rightarrow> truthy x)"

text \<open>\<^verbatim>\<open>typeof v === 'object'\<close> (true of \<^verbatim>\<open>null\<close> and of arrays), \<^verbatim>\<open>typeof v === 'string'\<close>
  and \<^verbatim>\<open>Array.isArray(v)\<close>.\<close>

fun typeof_object :: "json \<Rightarrow> bool" where
  "typeof_object JNull = True"
| "typeof_object (JArr xs) = True"
| "typeof_object (JObj kvs) = True"
| "typeof_object v = False"

fun typeof_string :: "json \<Rightarrow> bool" where
  "typeof_string (JStr s) = True"
| "typeof_string v = False"

fun isArray :: "json \<Rightarrow> bool" where
  "isArray (JArr xs) = True"
| "isArray v = False"

text \<open>Decimal notation of an array index or a net number, as a template literal prints it.\<close>

fun show_nat :: "nat \<Rightarrow> string" where
  "show_nat n =
     (if n < 10 then [''0123456789'' ! n]
      else show_nat (n div 10) @ [''0123456789'' ! (n mod 10)])"

declare show_nat.simps [simp del]

text \<open>\<^verbatim>\<open>Object.entries(v)\<close> for a value that is neither \<^verbatim>\<open>null\<close> nor \<^verbatim>\<open>undefined\<close>:
  the own enumerable properties. \<^verbatim>\<open>Object.keys\<close> and \<^verbatim>\<open>Object.values\<close> are its two
  projections.\<close>

fun entries :: "json \<Rightarrow> (string \<times> json) list" where
  "entries (JObj kvs) = kvs"
| "entries (JArr xs) = zip (map show_nat [0..<length xs]) xs"
| "entries (JStr s) = zip (map show_nat [0..<length s]) (map (\<lambda>c. JStr [c]) s)"
| "entries v = []"

text \<open>Reading the property \<open>k\<close> of a value that is neither \<^verbatim>\<open>null\<close> nor \<^verbatim>\<open>undefined\<close>
  (on those two the read throws, which the callers model).\<close>

fun js_prop :: "json \<Rightarrow> string \<Rightarrow> json option" where
  "js_prop (JArr xs) k =
     (if k = ''length'' then Some (JNum (int (length xs))) else map_of (entries (JArr xs)) k)"
| "js_prop (JStr s) k =
     (if k = ''length'' then Some (JNum (int (length s))) else map_of (entries (JStr s)) k)"
| "js_prop v k = map_of (entries v) k"

text \<open>\<^verbatim>\<open>s.includes('.')\<close>, \<^verbatim>\<open>s.split('.')\<close>, \<^verbatim>\<open>s.startsWith(p)\<close>, \<^verbatim>\<open>s.includes(sub)\<close>.\<close>

definition includes_dot :: "string \<Rightarrow> bool" where
  "includes_dot s = (CHR ''.'' \<in> set s)"

fun split_dot :: "string \<Rightarrow> string list" where
  "split_dot [] = [[]]"
| "split_dot (c # cs) =
     (if c = CHR ''.'' then [] # split_dot cs
      else (c # hd (split_dot cs)) # tl (split_dot cs))"

definition startsWith :: "string \<Rightarrow> string \<Rightarrow> bool" where
  "startsWith s p = (take (length p) s = p)"

fun includes_str :: "string \<Rightarrow> string \<Rightarrow> bool" where
  "includes_str [] sub = (sub = [])"
| "includes_str (c # cs) sub = (startsWith (c # cs) sub \<or> includes_str cs sub)"

text \<open>A JavaScript \<^verbatim>\<open>Set\<close> keeps its elements in insertion order; \<^verbatim>\<open>add\<close> appends a new one.\<close>

definition set_add :: "'a \<Rightarrow> 'a list \<Rightarrow> 'a list" where
  "set_add x xs = (if x \<in> set xs then xs else xs @ [x])"

text \<open>\<^verbatim>\<open>if (!m.has(k)) m.set(k, empty)\<close> on a \<^verbatim>\<open>Map\<close>, and \<^verbatim>\<open>if (!o[k]) o[k] = []\<close> on an
  object whose values are arrays: a new key goes last.\<close>

definition ensureKey :: "'k \<Rightarrow> ('k \<times> 'v list) list \<Rightarrow> ('k \<times> 'v list) list" where
  "ensureKey k al = (if map_of al k = None then AList.update k [] al else al)"

section \<open>The breadboard and the validator built from it\<close>

text \<open>A hole of the breadboard: the fields \<^verbatim>\<open>id\<close>, \<^verbatim>\<open>bus\<close> and \<^verbatim>\<open>type\<close>
  (\<^verbatim>\<open>'main'\<close>, \<^verbatim>\<open>'power'\<close> or \<^verbatim>\<open>'ground'\<close>) of the records the breadboard generator
  produces.\<close>

record hole =
  hole_id :: string
  hole_bus :: string
  hole_type :: string

text \<open>\<^verbatim>\<open>buildBusMap\<close> and \<^verbatim>\<open>buildHoleMap\<close>: a later hole with the same id overwrites
  an earlier one.\<close>

definition buildBusMap :: "hole list \<Rightarrow> string \<Rightarrow> string option" where
  "buildBusMap hs = foldl (\<lambda>m h. m(hole_id h \<mapsto> hole_bus h)) Map.empty hs"

definition buildHoleMap :: "hole list \<Rightarrow> string \<Rightarrow> hole option" where
  "buildHoleMap hs = foldl (\<lambda>m h. m(hole_id h \<mapsto> h)) Map.empty hs"

record validator =
  holes :: "hole list"
  busMap :: "string \<Rightarrow> string option"
  holeMap :: "string \<Rightarrow> hole option"

definition CircuitValidator :: "hole list \<Rightarrow> validator" where
  "CircuitValidator breadboardHoles =
     \<lparr>holes = breadboardHoles,
      busMap = buildBusMap breadboardHoles,
      holeMap = buildHoleMap breadboardHoles\<rparr>"

section \<open>Diagnostics\<close>

text \<open>The structured detail a diagnostic carries besides its type, severity and
  location (the \<^verbatim>\<open>metadata\<close> argument of \<^verbatim>\<open>createError\<close>). A bus read from the bus
  index may be \<^verbatim>\<open>undefined\<close>, hence the options.\<close>

datatype detail =
    NoDetail
  | ShortCircuitDetail string "string list" "string list"
  | PowerGroundDetail "string list" "string list"
  | OpenCircuitDetail "string option list" "string list"
  | CathodeBusDetail "string option"
  | AnodeBusDetail "string option"
  | GroupsDetail nat "nat list"
  | PwmPinDetail string string

record diag =
  dtype :: string
  severity :: string
  location :: string
  detail :: detail

definition createError :: "string \<Rightarrow> string \<Rightarrow> detail \<Rightarrow> diag" where
  "createError ty loc md = \<lparr>dtype = ty, severity = ''error'', location = loc, detail = md\<rparr>"

definition createWarning :: "string \<Rightarrow> string \<Rightarrow> detail \<Rightarrow> diag" where
  "createWarning ty loc md = \<lparr>dtype = ty, severity = ''warning'', location = loc, detail = md\<rparr>"

section \<open>Circuits that passed the schema layer\<close>

text \<open>
  Layers 2 to 5 run only on documents on which the schema layer found nothing. Of such
  a document they read the fields below and nothing else: every component has a
  string \<^verbatim>\<open>id\<close>, a string \<^verbatim>\<open>type\<close> and a \<^verbatim>\<open>placement\<close> whose values are strings; every
  wire has string \<^verbatim>\<open>id\<close>, \<^verbatim>\<open>from\<close> and \<^verbatim>\<open>to\<close>, and \<^verbatim>\<open>properties\<close> of any shape.
\<close>

record component =
  cid :: string
  ctype :: string
  placement :: "(string \<times> string) list"

record wire =
  wid :: string
  wire_from :: string
  wire_to :: string
  wire_properties :: "json option"

record circuit =
  components :: "component list"
  wires :: "wire list"

section \<open>Layer 3: electrical rule check\<close>

text \<open>The pins of a component that resolve to a bus, as \<^verbatim>\<open>{pin, hole, bus}\<close> triples.\<close>

definition pinBuses :: "validator \<Rightarrow> component \<Rightarrow> (string \<times> string \<times> string) list" where
  "pinBuses v cmpt =
     concat (map (\<lambda>(pinName, holeId).
        (case busMap v holeId of
           None \<Rightarrow> []
         | Some bus \<Rightarrow> if bus \<noteq> [] then [(pinName, holeId, bus)] else []))
      (placement cmpt))"

text \<open>Grouping the pins by bus: \<^verbatim>\<open>busCounts[bus]\<close> is created empty at the first pin of
  a bus, and every pin is pushed.\<close>

definition groupStep ::
    "(string \<times> string list) list \<Rightarrow> string \<times> string \<times> string \<Rightarrow> (string \<times> string list) list" where
  "groupStep busCounts =
     (\<lambda>(pinName, holeId, bus).
        AList.map_entry bus (\<lambda>pins. pins @ [pinName]) (ensureKey bus busCounts))"

definition groupByBus :: "(string \<times> string \<times> string) list \<Rightarrow> (string \<times> string list) list" where
  "groupByBus pbs = foldl groupStep [] pbs"

definition checkBusConflicts :: "validator \<Rightarrow> component \<Rightarrow> diag list" where
  "checkBusConflicts v cmpt =
     (let pbs = pinBuses v cmpt;
          busCounts = groupByBus pbs
      in concat (map (\<lambda>(bus, pins).
           if length pins > 1
           then [createError ''SHORT_CIRCUIT'' (cid cmpt)
                   (ShortCircuitDetail bus pins
                      (map (\<lambda>(p, h, b). h) (filter (\<lambda>(p, h, b). b = bus) pbs)))]
           else []) busCounts))"

text \<open>\<^verbatim>\<open>buildNets\<close>: one net per wire, numbered from 0, holding the set of its two
  endpoints.\<close>

definition buildNets :: "circuit \<Rightarrow> (nat \<times> string list) list" where
  "buildNets c =
     map (\<lambda>(netId, w). (netId, set_add (wire_to w) [wire_from w])) (enumerate 0 (wires c))"

text \<open>The body of the loop over the nets: the nodes without a dot are looked up in
  the hole index, and the unknown ones dropped.\<close>

definition checkNet :: "validator \<Rightarrow> nat \<times> string list \<Rightarrow> diag list" where
  "checkNet v =
     (\<lambda>(netId, nodes).
        (let holeNodes = filter (\<lambda>n. \<not> includes_dot n) nodes;
             hls = List.map_filter (holeMap v) holeNodes;
             hasPower = list_ex (\<lambda>h. hole_type h = ''power'') hls;
             hasGround = list_ex (\<lambda>h. hole_type h = ''ground'') hls
         in if hasPower \<and> hasGround
            then [createError ''POWER_GROUND_SHORT'' (''net-'' @ show_nat netId)
                    (PowerGroundDetail
                       (map hole_id (filter (\<lambda>h. hole_type h = ''power'') hls))
                       (map hole_id (filter (\<lambda>h. hole_type h = ''ground'') hls)))]
            else []))"

definition checkPowerGroundShorts :: "validator \<Rightarrow> circuit \<Rightarrow> diag list" where
  "checkPowerGroundShorts v c = concat (map (checkNet v) (buildNets c))"

definition validateElectricalRules :: "validator \<Rightarrow> circuit \<Rightarrow> diag list" where
  "validateElectricalRules v c =
     concat (map (checkBusConflicts v) (components c)) @ checkPowerGroundShorts v c"

text \<open>\<^verbatim>\<open>checkElectricalWarnings\<close>: its only check is commented out in the source.\<close>

definition checkElectricalWarnings :: "validator \<Rightarrow> circuit \<Rightarrow> diag list" where
  "checkElectricalWarnings v c = []"

section \<open>Layer 4: the bus graph and its searches\<close>

text \<open>The graph is a \<^verbatim>\<open>Map\<close> from a bus to the \<^verbatim>\<open>Set\<close> of its neighbours, both in
  insertion order.\<close>

type_synonym graph = "(string \<times> string list) list"

definition neighbors :: "graph \<Rightarrow> string \<Rightarrow> string list" where
  "neighbors g b = (case map_of g b of None \<Rightarrow> [] | Some ns \<Rightarrow> ns)"

definition addEdge :: "graph \<Rightarrow> string \<Rightarrow> string \<Rightarrow> graph" where
  "addEdge g bus1 bus2 =
     (if bus1 = [] \<or> bus2 = [] \<or> bus1 = bus2 then g
      else
        AList.map_entry bus2 (set_add bus1)
          (AList.map_entry bus1 (set_add bus2) (ensureKey bus2 (ensureKey bus1 g))))"

text \<open>\<^verbatim>\<open>getEndpointBus\<close>: a raw hole id is looked up in the bus index; a reference
  \<^verbatim>\<open>componentId.pinName\<close> goes through the placement of the first component with that
  id. The results \<^verbatim>\<open>undefined\<close> and \<^verbatim>\<open>null\<close> are both \<open>None\<close>.\<close>

definition getEndpointBus :: "validator \<Rightarrow> string \<Rightarrow> circuit \<Rightarrow> string option" where
  "getEndpointBus v endpoint c =
     (if \<not> includes_dot endpoint then busMap v endpoint
      else
        (case split_dot endpoint of
           compId # pinName # rest \<Rightarrow>
             (case find (\<lambda>k. cid k = compId) (components c) of
                None \<Rightarrow> None
              | Some cmpt \<Rightarrow>
                  (case map_of (placement cmpt) pinName of
                     None \<Rightarrow> None
                   | Some holeId \<Rightarrow> if holeId \<noteq> [] then busMap v holeId else None))
         | _ \<Rightarrow> None))"

text \<open>The buses of the placed pins of a component, those that resolve
  (\<^verbatim>\<open>Object.values(placement).map(busMap.get).filter(Boolean)\<close>).\<close>

definition placementBuses :: "validator \<Rightarrow> component \<Rightarrow> string list" where
  "placementBuses v cmpt =
     filter (\<lambda>b. b \<noteq> []) (List.map_filter (busMap v) (map snd (placement cmpt)))"

fun pairs :: "'a list \<Rightarrow> ('a \<times> 'a) list" where
  "pairs [] = []"
| "pairs (x # xs) = map (Pair x) xs @ pairs xs"

text \<open>The two loops of \<^verbatim>\<open>buildBusConnectivityGraph\<close>: an edge for every pair of placed
  pins of a component, and an edge for every wire whose two endpoints resolve.\<close>

definition addComponentEdges :: "validator \<Rightarrow> graph \<Rightarrow> component \<Rightarrow> graph" where
  "addComponentEdges v g cmpt =
     foldl (\<lambda>g' (b1, b2). addEdge g' b1 b2) g (pairs (placementBuses v cmpt))"

definition addWireEdge :: "validator \<Rightarrow> circuit \<Rightarrow> graph \<Rightarrow> wire \<Rightarrow> graph" where
  "addWireEdge v c g w =
     (case (getEndpointBus v (wire_from w) c, getEndpointBus v (wire_to w) c) of
        (Some fromBus, Some toBus) \<Rightarrow>
          if fromBus \<noteq> [] \<and> toBus \<noteq> [] then addEdge g fromBus toBus else g
      | _ \<Rightarrow> g)"

definition buildBusConnectivityGraph :: "validator \<Rightarrow> circuit \<Rightarrow> graph" where
  "buildBusConnectivityGraph v c =
     foldl (addWireEdge v c) (foldl (addComponentEdges v) [] (components c)) (wires c)"

text \<open>
  \<^verbatim>\<open>pathExists\<close>, \<^verbatim>\<open>pathToGround\<close> and \<^verbatim>\<open>pathToPowerSource\<close> run the same loop: take
  the first bus of the queue, skip it if visited, otherwise mark it, test it, and
  append its neighbours. \<open>bfs\<close> is that loop; \<open>visit\<close> is the test, which returns the
  result of the search when it succeeds at the bus.
\<close>

definition graph_nodes :: "graph \<Rightarrow> string set" where
  "graph_nodes g = fst ` set g \<union> (\<Union>p \<in> set g. set (snd p))"

lemma neighbors_subset_nodes: "set (neighbors g b) \<subseteq> graph_nodes g"
proof
  fix x assume "x \<in> set (neighbors g b)"
  then obtain ns where "map_of g b = Some ns" "x \<in> set ns"
    by (cases "map_of g b") (auto simp: neighbors_def)
  then have "(b, ns) \<in> set g" "x \<in> set ns" by (auto dest: map_of_SomeD)
  then show "x \<in> graph_nodes g" unfolding graph_nodes_def by force
qed

lemma unvisited_card_le:
  "card ((graph_nodes g \<union> set queue) - set visited)
     \<le> card ((graph_nodes g \<union> set (b # queue)) - set visited)"
proof (rule card_mono)
  show "finite ((graph_nodes g \<union> set (b # queue)) - set visited)"
    by (simp add: graph_nodes_def)
  show "(graph_nodes g \<union> set queue) - set visited
          \<subseteq> (graph_nodes g \<union> set (b # queue)) - set visited"
    by auto
qed

lemma unvisited_card_less:
  assumes "b \<notin> set visited"
  shows "card ((graph_nodes g \<union> set (queue @ neighbors g b)) - set (visited @ [b]))
           < card ((graph_nodes g \<union> set (b # queue)) - set visited)"
proof (rule psubset_card_mono)
  show "finite ((graph_nodes g \<union> set (b # queue)) - set visited)"
    by (simp add: graph_nodes_def)
  show "(graph_nodes g \<union> set (queue @ neighbors g b)) - set (visited @ [b])
          \<subset> (graph_nodes g \<union> set (b # queue)) - set visited"
    using neighbors_subset_nodes[of g b] assms by auto
qed

function bfs :: "graph \<Rightarrow> (string \<Rightarrow> 'r option) \<Rightarrow> string list \<Rightarrow> string list \<Rightarrow> 'r option" where
  "bfs g visit visited [] = None"
| "bfs g visit visited (currentBus # queue) =
     (if currentBus \<in> set visited then bfs g visit visited queue
      else
        (case visit currentBus of
           Some r \<Rightarrow> Some r
         | None \<Rightarrow> bfs g visit (visited @ [currentBus]) (queue @ neighbors g currentBus)))"
  by pat_completeness auto
termination
proof (relation "measures
    [\<lambda>(g, visit, visited, queue). card ((graph_nodes g \<union> set queue) - set visited),
     \<lambda>(g, visit, visited, queue). length queue]", goal_cases)
  case 1
  show ?case by simp
next
  case (2 g visit visited currentBus queue)
  show ?case using unvisited_card_le[of g queue visited currentBus] by auto
next
  case (3 g visit visited currentBus queue)
  show ?case using unvisited_card_less[OF 3(1), of g queue] by simp
qed

definition pathExists :: "graph \<Rightarrow> string \<Rightarrow> string option \<Rightarrow> bool" where
  "pathExists g startBus targetBus =
     (if Some startBus = targetBus then True
      else bfs g (\<lambda>currentBus. if Some currentBus = targetBus then Some True else None)
             [] [startBus] \<noteq> None)"

text \<open>\<^verbatim>\<open>isGroundPin\<close> and \<^verbatim>\<open>isGPIOPin\<close>: the endpoint names a pin of a component of the
  circuit, and the pin name contains \<^verbatim>\<open>GND\<close>, respectively starts with \<^verbatim>\<open>GP\<close>.\<close>

definition isGroundPin :: "string \<Rightarrow> circuit \<Rightarrow> bool" where
  "isGroundPin endpoint c =
     (if \<not> includes_dot endpoint then False
      else
        (case split_dot endpoint of
           compId # pinName # rest \<Rightarrow>
             (case find (\<lambda>k. cid k = compId) (components c) of
                None \<Rightarrow> False
              | Some cmpt \<Rightarrow> includes_str pinName ''GND'')
         | _ \<Rightarrow> False))"

definition isGPIOPin :: "string \<Rightarrow> circuit \<Rightarrow> bool" where
  "isGPIOPin endpoint c =
     (if \<not> includes_dot endpoint then False
      else
        (case split_dot endpoint of
           compId # pinName # rest \<Rightarrow>
             (case find (\<lambda>k. cid k = compId) (components c) of
                None \<Rightarrow> False
              | Some cmpt \<Rightarrow> startsWith pinName ''GP'')
         | _ \<Rightarrow> False))"

definition wiresOnBus :: "validator \<Rightarrow> circuit \<Rightarrow> string \<Rightarrow> wire list" where
  "wiresOnBus v c currentBus =
     filter (\<lambda>w. getEndpointBus v (wire_from w) c = Some currentBus
               \<or> getEndpointBus v (wire_to w) c = Some currentBus) (wires c)"

definition pathToGround :: "validator \<Rightarrow> string option \<Rightarrow> graph \<Rightarrow> circuit \<Rightarrow> bool" where
  "pathToGround v startBus g c =
     (case startBus of
        None \<Rightarrow> False
      | Some s \<Rightarrow>
          if s = [] then False
          else bfs g (\<lambda>currentBus.
                 if list_ex (\<lambda>h. hole_type h = ''ground'')
                      (filter (\<lambda>h. hole_bus h = currentBus) (holes v))
                 then Some True
                 else if list_ex (\<lambda>w. isGroundPin (wire_from w) c \<or> isGroundPin (wire_to w) c)
                           (wiresOnBus v c currentBus)
                 then Some True
                 else None)
               [] [s] \<noteq> None)"

text \<open>The result of \<^verbatim>\<open>pathToPowerSource\<close>: \<^verbatim>\<open>{found: false}\<close>, a power rail, or the
  first GPIO endpoint met.\<close>

datatype source_result = SourceNotFound | PowerRail | GpioPin string

definition found :: "source_result \<Rightarrow> bool" where
  "found r = (r \<noteq> SourceNotFound)"

definition pathToPowerSource :: "validator \<Rightarrow> string option \<Rightarrow> graph \<Rightarrow> circuit \<Rightarrow> source_result" where
  "pathToPowerSource v startBus g c =
     (case startBus of
        None \<Rightarrow> SourceNotFound
      | Some s \<Rightarrow>
          if s = [] then SourceNotFound
          else
            (case bfs g (\<lambda>currentBus.
                    if list_ex (\<lambda>h. hole_type h = ''power'')
                         (filter (\<lambda>h. hole_bus h = currentBus) (holes v))
                    then Some PowerRail
                    else
                      (case List.map_filter (\<lambda>w.
                               if isGPIOPin (wire_from w) c then Some (wire_from w)
                               else if isGPIOPin (wire_to w) c then Some (wire_to w)
                               else None) (wiresOnBus v c currentBus) of
                         pin # others \<Rightarrow> Some (GpioPin pin)
                       | [] \<Rightarrow> None))
                  [] [s] of
               None \<Rightarrow> SourceNotFound
             | Some r \<Rightarrow> r))"

text \<open>The series check and the complete-path check pick the first component whose
  \<^verbatim>\<open>type\<close> is one of two literal strings.\<close>

definition is_led :: "component \<Rightarrow> bool" where
  "is_led k = (ctype k = ''led'' \<or> ctype k = ''led-red-5mm'')"

definition is_resistor :: "component \<Rightarrow> bool" where
  "is_resistor k = (ctype k = ''resistor'' \<or> ctype k = ''resistor-220'')"

text \<open>\<^verbatim>\<open>this.busMap.get(cmpt.placement.pin)\<close>: \<open>None\<close> when the pin is not placed or its
  hole is unknown.\<close>

definition pinBus :: "validator \<Rightarrow> component \<Rightarrow> string \<Rightarrow> string option" where
  "pinBus v cmpt pin =
     (case map_of (placement cmpt) pin of None \<Rightarrow> None | Some holeId \<Rightarrow> busMap v holeId)"

definition checkSeriesConnections :: "validator \<Rightarrow> circuit \<Rightarrow> graph \<Rightarrow> diag list" where
  "checkSeriesConnections v c g =
     (case (find is_led (components c), find is_resistor (components c)) of
        (Some led, Some resistor) \<Rightarrow>
          (let ledAnodeBus = pinBus v led ''anode'';
               ledCathodeBus = pinBus v led ''cathode'';
               resistorBuses = placementBuses v resistor;
               directConnection =
                 (list_ex (\<lambda>b. Some b = ledAnodeBus) resistorBuses
                  \<or> list_ex (\<lambda>b. Some b = ledCathodeBus) resistorBuses)
           in if \<not> directConnection
              then
                (let connected =
                       list_ex (\<lambda>rBus. pathExists g rBus ledAnodeBus
                                      \<or> pathExists g rBus ledCathodeBus) resistorBuses
                 in if \<not> connected
                    then [createError ''OPEN_CIRCUIT'' ''led-resistor''
                            (OpenCircuitDetail [ledAnodeBus, ledCathodeBus] resistorBuses)]
                    else [])
              else [])
      | _ \<Rightarrow> [])"

definition checkCompletePaths :: "validator \<Rightarrow> circuit \<Rightarrow> graph \<Rightarrow> diag list" where
  "checkCompletePaths v c g =
     (case find is_led (components c) of
        None \<Rightarrow> []
      | Some led \<Rightarrow>
          (let ledCathodeBus = pinBus v led ''cathode'';
               ledAnodeBus = pinBus v led ''anode'';
               cathodeToGround = pathToGround v ledCathodeBus g c;
               anodeToSource = pathToPowerSource v ledAnodeBus g c
           in (if \<not> cathodeToGround
               then [createError ''NO_GROUND_PATH'' (cid led) (CathodeBusDetail ledCathodeBus)]
               else [])
              @ (if \<not> found anodeToSource
                 then [createError ''NO_SOURCE_PATH'' (cid led) (AnodeBusDetail ledAnodeBus)]
                 else [])))"

text \<open>\<^verbatim>\<open>findConnectedGroups\<close>: a search from every key of the graph not visited yet;
  \<open>collectGroup\<close> is its inner loop, which returns the visited set and the group.\<close>

function collectGroup :: "graph \<Rightarrow> string list \<Rightarrow> string list \<Rightarrow> string list \<Rightarrow> string list \<times> string list" where
  "collectGroup g visited [] grp = (visited, grp)"
| "collectGroup g visited (node # queue) grp =
     (if node \<in> set visited then collectGroup g visited queue grp
      else collectGroup g (visited @ [node]) (queue @ neighbors g node) (grp @ [node]))"
  by pat_completeness auto
termination
proof (relation "measures
    [\<lambda>(g, visited, queue, grp). card ((graph_nodes g \<union> set queue) - set visited),
     \<lambda>(g, visited, queue, grp). length queue]", goal_cases)
  case 1
  show ?case by simp
next
  case (2 g visited node queue grp)
  show ?case using unvisited_card_le[of g queue visited node] by auto
next
  case (3 g visited node queue grp)
  show ?case using unvisited_card_less[OF 3(1), of g queue] by simp
qed

definition findConnectedGroups :: "graph \<Rightarrow> string list list" where
  "findConnectedGroups g =
     snd (foldl (\<lambda>(visited, groups) startNode.
            if startNode \<in> set visited then (visited, groups)
            else (case collectGroup g visited [startNode] [] of
                    (visited', grp) \<Rightarrow> (visited', groups @ [grp])))
          ([], []) (map fst g))"

definition checkIsolatedComponents :: "circuit \<Rightarrow> graph \<Rightarrow> diag list" where
  "checkIsolatedComponents c g =
     (let connectedGroups = findConnectedGroups g
      in if length connectedGroups > 1
         then [createError ''DISCONNECTED_GROUPS'' ''circuit''
                 (GroupsDetail (length connectedGroups) (map length connectedGroups))]
         else [])"

definition validateTopology :: "validator \<Rightarrow> circuit \<Rightarrow> diag list" where
  "validateTopology v c =
     (if components c = [] then [createError ''EMPTY_CIRCUIT'' ''circuit'' NoDetail]
      else if wires c = [] then [createError ''NO_CONNECTIONS'' ''circuit'' NoDetail]
      else
        (let g = buildBusConnectivityGraph v c
         in checkSeriesConnections v c g @ checkCompletePaths v c g
            @ checkIsolatedComponents c g))"

section \<open>Layer 1: the schema of a circuit document\<close>

text \<open>What a JavaScript function throws. Reading a property of \<^verbatim>\<open>null\<close> or \<^verbatim>\<open>undefined\<close>
  is a \<^verbatim>\<open>TypeError\<close>; \<open>Error\<close> is what the code throws itself. A function that may throw
  returns \<open>Inl\<close> of what it threw.\<close>

datatype js_error = TypeError | Error

definition typeof_string_opt :: "json option \<Rightarrow> bool" where
  "typeof_string_opt v = (case v of None \<Rightarrow> False | Some x \<Rightarrow> typeof_string x)"

definition typeof_object_opt :: "json option \<Rightarrow> bool" where
  "typeof_object_opt v = (case v of None \<Rightarrow> False | Some x \<Rightarrow> typeof_object x)"

definition isArray_opt :: "json option \<Rightarrow> bool" where
  "isArray_opt v = (case v of None \<Rightarrow> False | Some x \<Rightarrow> isArray x)"

definition validateMetadata :: "json \<Rightarrow> diag list" where
  "validateMetadata metadata =
     concat (map (\<lambda>field.
        if \<not> truthy_opt (js_prop metadata field) \<or> \<not> typeof_string_opt (js_prop metadata field)
        then [createError ''INVALID_METADATA'' ''metadata'' NoDetail]
        else []) [''name'', ''description''])"

text \<open>\<^verbatim>\<open>validateComponentSchema\<close> reads \<^verbatim>\<open>component.id\<close> first: on a \<^verbatim>\<open>null\<close>
  element that read throws.\<close>

definition validateComponentSchema :: "json \<Rightarrow> nat \<Rightarrow> js_error + diag list" where
  "validateComponentSchema cmpt index =
     (if cmpt = JNull then Inl TypeError
      else
        (let loc = ''components['' @ show_nat index @ '']'';
             idv = js_prop cmpt ''id'';
             tyv = js_prop cmpt ''type'';
             pl = js_prop cmpt ''placement'';
             props = js_prop cmpt ''properties''
         in Inr (
           (if \<not> truthy_opt idv \<or> \<not> typeof_string_opt idv
            then [createError ''MISSING_COMPONENT_ID'' loc NoDetail] else [])
           @ (if \<not> truthy_opt tyv \<or> \<not> typeof_string_opt tyv
              then [createError ''MISSING_COMPONENT_TYPE'' loc NoDetail] else [])
           @ (case pl of
                None \<Rightarrow> [createError ''MISSING_PLACEMENT'' loc NoDetail]
              | Some p \<Rightarrow>
                  if \<not> truthy p \<or> \<not> typeof_object p
                  then [createError ''MISSING_PLACEMENT'' loc NoDetail]
                  else
                    (if length (entries p) = 0
                     then [createError ''EMPTY_PLACEMENT'' loc NoDetail] else [])
                    @ concat (map (\<lambda>(pin, holeId).
                        if \<not> typeof_string holeId
                        then [createError ''INVALID_HOLE_ID'' loc NoDetail] else [])
                      (entries p)))
           @ (if truthy_opt props \<and> \<not> typeof_object_opt props
              then [createError ''INVALID_PROPERTIES'' loc NoDetail] else []))))"

definition validateWireSchema :: "json \<Rightarrow> nat \<Rightarrow> js_error + diag list" where
  "validateWireSchema w index =
     (if w = JNull then Inl TypeError
      else
        (let loc = ''wires['' @ show_nat index @ '']'';
             idv = js_prop w ''id'';
             fromv = js_prop w ''from'';
             tov = js_prop w ''to''
         in Inr (
           (if \<not> truthy_opt idv \<or> \<not> typeof_string_opt idv
            then [createError ''MISSING_WIRE_ID'' loc NoDetail] else [])
           @ (if \<not> truthy_opt fromv \<or> \<not> typeof_string_opt fromv
              then [createError ''MISSING_WIRE_FROM'' loc NoDetail] else [])
           @ (if \<not> truthy_opt tov \<or> \<not> typeof_string_opt tov
              then [createError ''MISSING_WIRE_TO'' loc NoDetail] else []))))"

text \<open>\<^verbatim>\<open>array.forEach((x, index) => errors.push(...f(x, index)))\<close>, where \<open>f\<close> may
  throw: the first throw ends the loop and nothing is returned.\<close>

fun forEachIndexed :: "('a \<Rightarrow> nat \<Rightarrow> js_error + diag list) \<Rightarrow> nat \<Rightarrow> 'a list \<Rightarrow> js_error + diag list" where
  "forEachIndexed f i [] = Inr []"
| "forEachIndexed f i (x # xs) =
     (case f x i of
        Inl e \<Rightarrow> Inl e
      | Inr ds \<Rightarrow>
          (case forEachIndexed f (Suc i) xs of
             Inl e \<Rightarrow> Inl e
           | Inr ds' \<Rightarrow> Inr (ds @ ds')))"

text \<open>The three parts of \<^verbatim>\<open>validateSchema\<close> once the document has a \<^verbatim>\<open>circuit\<close>: the
  checks of the required fields and of the metadata, the loop over the components and
  the loop over the wires (each loop runs only when the field is an array).\<close>

definition topLevelErrors :: "json \<Rightarrow> diag list" where
  "topLevelErrors c =
     (let metadata = js_prop c ''metadata'';
          cmpts = js_prop c ''components'';
          ws = js_prop c ''wires''
      in (if \<not> truthy_opt metadata
          then [createError ''MISSING_METADATA'' ''circuit'' NoDetail] else [])
         @ (if \<not> truthy_opt cmpts \<or> \<not> isArray_opt cmpts
            then [createError ''MISSING_COMPONENTS'' ''circuit'' NoDetail] else [])
         @ (if \<not> truthy_opt ws \<or> \<not> isArray_opt ws
            then [createError ''MISSING_WIRES'' ''circuit'' NoDetail] else [])
         @ (case metadata of
              None \<Rightarrow> []
            | Some m \<Rightarrow> if truthy m then validateMetadata m else []))"

definition componentSchemaErrors :: "json option \<Rightarrow> js_error + diag list" where
  "componentSchemaErrors cmpts =
     (case cmpts of
        Some (JArr xs) \<Rightarrow> forEachIndexed validateComponentSchema 0 xs
      | _ \<Rightarrow> Inr [])"

definition wireSchemaErrors :: "json option \<Rightarrow> js_error + diag list" where
  "wireSchemaErrors ws =
     (case ws of
        Some (JArr ys) \<Rightarrow> forEachIndexed validateWireSchema 0 ys
      | _ \<Rightarrow> Inr [])"

definition validateSchema :: "json \<Rightarrow> js_error + diag list" where
  "validateSchema circuitJSON =
     (if \<not> truthy circuitJSON \<or> \<not> typeof_object circuitJSON
      then Inr [createError ''INVALID_JSON'' ''Root'' NoDetail]
      else
        (case js_prop circuitJSON ''circuit'' of
           None \<Rightarrow> Inr [createError ''MISSING_CIRCUIT'' ''Root'' NoDetail]
         | Some c \<Rightarrow>
             if \<not> truthy c then Inr [createError ''MISSING_CIRCUIT'' ''Root'' NoDetail]
             else
               (case componentSchemaErrors (js_prop c ''components'') of
                  Inl e \<Rightarrow> Inl e
                | Inr componentErrors \<Rightarrow>
                    (case wireSchemaErrors (js_prop c ''wires'') of
                       Inl e \<Rightarrow> Inl e
                     | Inr wireErrors \<Rightarrow>
                         Inr (topLevelErrors c @ componentErrors @ wireErrors)))))"

text \<open>
  The fields the later layers read, taken from the document. On a document that passed
  the schema layer every \<^verbatim>\<open>id\<close>, \<^verbatim>\<open>type\<close>, \<^verbatim>\<open>from\<close>, \<^verbatim>\<open>to\<close> and placement value is a
  string, so nothing is lost (lemma \<open>schema_valid_view\<close> below); the defaults for other
  shapes are never used.
\<close>

definition as_string :: "json option \<Rightarrow> string" where
  "as_string v = (case v of Some (JStr s) \<Rightarrow> s | _ \<Rightarrow> [])"

definition component_of :: "json \<Rightarrow> component" where
  "component_of j =
     \<lparr>cid = as_string (js_prop j ''id''),
      ctype = as_string (js_prop j ''type''),
      placement =
        (case js_prop j ''placement'' of
           None \<Rightarrow> []
         | Some p \<Rightarrow> map (\<lambda>(pin, holeId). (pin, as_string (Some holeId))) (entries p))\<rparr>"

definition wire_of :: "json \<Rightarrow> wire" where
  "wire_of j =
     \<lparr>wid = as_string (js_prop j ''id''),
      wire_from = as_string (js_prop j ''from''),
      wire_to = as_string (js_prop j ''to''),
      wire_properties = js_prop j ''properties''\<rparr>"

definition circuit_of :: "json \<Rightarrow> circuit" where
  "circuit_of circuitJSON =
     (case js_prop circuitJSON ''circuit'' of
        None \<Rightarrow> \<lparr>components = [], wires = []\<rparr>
      | Some c \<Rightarrow>
          \<lparr>components =
             (case js_prop c ''components'' of Some (JArr xs) \<Rightarrow> map component_of xs | _ \<Rightarrow> []),
           wires =
             (case js_prop c ''wires'' of Some (JArr ys) \<Rightarrow> map wire_of ys | _ \<Rightarrow> [])\<rparr>)"

section \<open>The component registry\<close>

text \<open>
  \<^verbatim>\<open>fetch\<close> is the environment. A fetch is rejected (\<open>NetworkError\<close>), answers with a
  status that is not ok (\<open>HttpError\<close>), answers with a body that is not JSON
  (\<open>InvalidJson\<close>), or answers with a parsed body. The library is fetched from a fixed
  URL; a component file from \<^verbatim>\<open>components/\<close> followed by the path found in the index, so
  the request is determined by that path. The network may answer the same request
  differently each time: \<open>net n\<close> answers the fetch made after \<open>n\<close> earlier ones.
\<close>

datatype response = NetworkError | HttpError | InvalidJson | Body json

datatype request = LibraryRequest | ComponentRequest json

type_synonym network = "nat \<Rightarrow> request \<Rightarrow> response"

text \<open>The mutable fields of a \<^verbatim>\<open>CircuitValidator\<close>, and the number of fetches made so
  far. \<^verbatim>\<open>componentLibrary\<close> starts as \<^verbatim>\<open>null\<close>, written \<open>None\<close> like \<^verbatim>\<open>undefined\<close>: the
  code tests the field for truthiness before every read of it. \<^verbatim>\<open>loadedComponents\<close>
  is a \<^verbatim>\<open>Map\<close>; a cached definition may be \<^verbatim>\<open>undefined\<close>.\<close>

record registry =
  componentLibrary :: "json option"
  loadedComponents :: "(string \<times> json option) list"
  fetchCount :: nat

definition newRegistry :: registry where
  "newRegistry = \<lparr>componentLibrary = None, loadedComponents = [], fetchCount = 0\<rparr>"

text \<open>\<^verbatim>\<open>init\<close>: everything is inside one \<^verbatim>\<open>try\<close>, and the \<^verbatim>\<open>catch\<close> returns \<^verbatim>\<open>false\<close>.
  The assignment to \<^verbatim>\<open>this.componentLibrary\<close> precedes the \<^verbatim>\<open>console.log\<close> that reads
  \<^verbatim>\<open>Object.keys(this.componentLibrary.index)\<close>, which throws when the library or its
  index is \<^verbatim>\<open>null\<close> or \<^verbatim>\<open>undefined\<close>.\<close>

definition init :: "network \<Rightarrow> registry \<Rightarrow> bool \<times> registry" where
  "init net st =
     (let st1 = st\<lparr>fetchCount := Suc (fetchCount st)\<rparr>
      in (case net (fetchCount st) LibraryRequest of
            Body data \<Rightarrow>
              if data = JNull then (False, st1)
              else
                (let st2 = st1\<lparr>componentLibrary := js_prop data ''library''\<rparr>
                 in (case js_prop data ''library'' of
                       None \<Rightarrow> (False, st2)
                     | Some lib \<Rightarrow>
                         if lib = JNull then (False, st2)
                         else
                           (case js_prop lib ''index'' of
                              None \<Rightarrow> (False, st2)
                            | Some ix \<Rightarrow> if ix = JNull then (False, st2) else (True, st2))))
          | _ \<Rightarrow> (False, st1)))"

text \<open>\<^verbatim>\<open>loadComponent\<close>: the cache first; then the index; then the fetch, whose failures
  are rethrown as an \<^verbatim>\<open>Error\<close>.\<close>

definition loadComponent :: "network \<Rightarrow> registry \<Rightarrow> string \<Rightarrow> (js_error + json option) \<times> registry" where
  "loadComponent net st componentType =
     (case map_of (loadedComponents st) componentType of
        Some cached \<Rightarrow> (Inr cached, st)
      | None \<Rightarrow>
          (case componentLibrary st of
             None \<Rightarrow> (Inl Error, st)
           | Some lib \<Rightarrow>
               if \<not> truthy lib then (Inl Error, st)
               else
                 (case js_prop lib ''index'' of
                    None \<Rightarrow> (Inl TypeError, st)
                  | Some ix \<Rightarrow>
                      if ix = JNull then (Inl TypeError, st)
                      else
                        (case js_prop ix componentType of
                           None \<Rightarrow> (Inl Error, st)
                         | Some componentPath \<Rightarrow>
                             if \<not> truthy componentPath then (Inl Error, st)
                             else
                               (let st1 = st\<lparr>fetchCount := Suc (fetchCount st)\<rparr>
                                in (case net (fetchCount st) (ComponentRequest componentPath) of
                                      Body data \<Rightarrow>
                                        if data = JNull then (Inl Error, st1)
                                        else
                                          (Inr (js_prop data ''component''),
                                           st1\<lparr>loadedComponents :=
                                                 AList.update componentType (js_prop data ''component'')
                                                   (loadedComponents st1)\<rparr>)
                                    | _ \<Rightarrow> (Inl Error, st1)))))))"

section \<open>Layer 2: references\<close>

text \<open>The ids seen so far and the diagnostics for the repeated ones: every occurrence
  after the first is reported. An empty id is skipped.\<close>

definition duplicateIds :: "string \<Rightarrow> string list \<Rightarrow> string list \<times> diag list" where
  "duplicateIds ty ids =
     foldl (\<lambda>(seen, errs) i.
        if i \<noteq> []
        then (set_add i seen, errs @ (if i \<in> set seen then [createError ty i NoDetail] else []))
        else (seen, errs))
      ([], []) ids"

definition validateWireEndpoint :: "validator \<Rightarrow> wire \<Rightarrow> string \<Rightarrow> string list \<Rightarrow> diag list" where
  "validateWireEndpoint v w reference componentIds =
     (if reference = [] then []
      else if includes_dot reference
      then
        (case split_dot reference of
           compId # rest \<Rightarrow>
             if compId \<notin> set componentIds
             then [createError ''INVALID_WIRE_COMPONENT'' (wid w) NoDetail] else []
         | [] \<Rightarrow> [])
      else if holeMap v reference = None
      then [createError ''INVALID_WIRE_HOLE'' (wid w) NoDetail]
      else [])"

text \<open>The body of the loop over the component types. What \<^verbatim>\<open>loadComponent\<close> throws,
  and the \<^verbatim>\<open>TypeError\<close> of reading \<^verbatim>\<open>pins\<close> of a definition that is \<^verbatim>\<open>null\<close> or
  \<^verbatim>\<open>undefined\<close>, are caught and reported as \<^verbatim>\<open>UNKNOWN_COMPONENT_TYPE\<close>.\<close>

definition checkComponentType :: "network \<Rightarrow> registry \<Rightarrow> component \<Rightarrow> diag list \<times> registry" where
  "checkComponentType net st cmpt =
     (if ctype cmpt = [] then ([], st)
      else
        (case loadComponent net st (ctype cmpt) of
           (Inl e, st') \<Rightarrow> ([createError ''UNKNOWN_COMPONENT_TYPE'' (cid cmpt) NoDetail], st')
         | (Inr None, st') \<Rightarrow> ([createError ''UNKNOWN_COMPONENT_TYPE'' (cid cmpt) NoDetail], st')
         | (Inr (Some componentDef), st') \<Rightarrow>
             if componentDef = JNull
             then ([createError ''UNKNOWN_COMPONENT_TYPE'' (cid cmpt) NoDetail], st')
             else
               (case js_prop componentDef ''pins'' of
                  None \<Rightarrow> ([], st')
                | Some pins \<Rightarrow>
                    if \<not> truthy pins then ([], st')
                    else
                      (let definedPins = map fst (entries pins);
                           placedPins = map fst (placement cmpt)
                       in (concat (map (\<lambda>pin.
                             if pin \<notin> set definedPins
                             then [createError ''INVALID_PIN_NAME'' (cid cmpt) NoDetail]
                             else []) placedPins), st')))))"

definition validateReferences :: "network \<Rightarrow> validator \<Rightarrow> registry \<Rightarrow> circuit \<Rightarrow> diag list \<times> registry" where
  "validateReferences net v st c =
     (let (componentIds, duplicateComponents) =
            duplicateIds ''DUPLICATE_COMPONENT_ID'' (map cid (components c));
          (typeErrors, st') =
            foldl (\<lambda>(errs, s) cmpt.
               (case checkComponentType net s cmpt of (es, s') \<Rightarrow> (errs @ es, s')))
             ([], st) (components c);
          holeErrors =
            concat (map (\<lambda>cmpt.
              concat (map (\<lambda>(pin, holeId).
                if holeMap v holeId = None
                then [createError ''INVALID_HOLE_REFERENCE'' (cid cmpt) NoDetail] else [])
                (placement cmpt))) (components c));
          endpointErrors =
            concat (map (\<lambda>w.
              validateWireEndpoint v w (wire_from w) componentIds
              @ validateWireEndpoint v w (wire_to w) componentIds) (wires c));
          (wireIds, duplicateWires) = duplicateIds ''DUPLICATE_WIRE_ID'' (map wid (wires c))
      in (duplicateComponents @ typeErrors @ holeErrors @ endpointErrors @ duplicateWires, st'))"

section \<open>Layer 5: component rules\<close>

text \<open>\<^verbatim>\<open>wire.properties?.key\<close>.\<close>

definition optional_prop :: "json option \<Rightarrow> string \<Rightarrow> json option" where
  "optional_prop v k =
     (case v of None \<Rightarrow> None | Some x \<Rightarrow> if x = JNull then None else js_prop x k)"

text \<open>A placement entry read as a condition: absent and empty are falsy.\<close>

definition truthy_pin :: "string option \<Rightarrow> bool" where
  "truthy_pin h = (case h of None \<Rightarrow> False | Some s \<Rightarrow> s \<noteq> [])"

text \<open>The PWM check of one wire of a microcontroller. Reading a pin of
  \<^verbatim>\<open>componentDef.pins\<close> throws when \<^verbatim>\<open>pins\<close> is \<^verbatim>\<open>null\<close> or \<^verbatim>\<open>undefined\<close>.\<close>

definition checkPwmWire :: "component \<Rightarrow> json \<Rightarrow> wire \<Rightarrow> js_error + diag list" where
  "checkPwmWire cmpt componentDef w =
     (let isPWMSignal =
            (optional_prop (wire_properties w) ''signal_type'' = Some (JStr ''pwm'')
             \<or> optional_prop (wire_properties w) ''function'' = Some (JStr ''signal''))
      in if \<not> isPWMSignal then Inr []
         else
           (let endpoint = (if startsWith (wire_from w) (cid cmpt @ ''.'')
                            then wire_from w else wire_to w)
            in (case split_dot endpoint of
                  compId # pinName # rest \<Rightarrow>
                    (case js_prop componentDef ''pins'' of
                       None \<Rightarrow> Inl TypeError
                     | Some pins \<Rightarrow>
                         if pins = JNull then Inl TypeError
                         else
                           (case js_prop pins pinName of
                              None \<Rightarrow> Inr []
                            | Some pinDef \<Rightarrow>
                                if truthy pinDef
                                   \<and> js_prop pinDef ''pwmCapable'' = Some (JBool False)
                                then Inr [createError ''INVALID_PWM_PIN'' (cid cmpt)
                                            (PwmPinDetail pinName (wid w))]
                                else Inr []))
                | _ \<Rightarrow> Inr [])))"

fun forEachThrowing :: "('a \<Rightarrow> js_error + diag list) \<Rightarrow> 'a list \<Rightarrow> js_error + diag list" where
  "forEachThrowing f [] = Inr []"
| "forEachThrowing f (x # xs) =
     (case f x of
        Inl e \<Rightarrow> Inl e
      | Inr ds \<Rightarrow>
          (case forEachThrowing f xs of
             Inl e \<Rightarrow> Inl e
           | Inr ds' \<Rightarrow> Inr (ds @ ds')))"

definition validateAgainstComponentRules ::
    "validator \<Rightarrow> component \<Rightarrow> json \<Rightarrow> circuit \<Rightarrow> js_error + diag list" where
  "validateAgainstComponentRules v cmpt componentDef c =
     (case js_prop componentDef ''validation'' of
        None \<Rightarrow> Inr []
      | Some validation \<Rightarrow>
          if \<not> truthy validation \<or> \<not> truthy_opt (js_prop validation ''rules'') then Inr []
          else
            (let electricalType = js_prop validation ''electricalType'';
                 anode = map_of (placement cmpt) ''anode'';
                 cathode = map_of (placement cmpt) ''cathode'';
                 ledErrors =
                   (if electricalType = Some (JStr ''led'')
                    then
                      (if \<not> truthy_pin anode \<or> \<not> truthy_pin cathode
                       then [createError ''INVALID_LED_PLACEMENT'' (cid cmpt) NoDetail] else [])
                      @ (if truthy_pin anode \<and> truthy_pin cathode
                         then
                           (let anodeBus = pinBus v cmpt ''anode'';
                                cathodeBus = pinBus v cmpt ''cathode'';
                                cathodeHoles = filter (\<lambda>h. Some (hole_bus h) = cathodeBus) (holes v);
                                anodeHoles = filter (\<lambda>h. Some (hole_bus h) = anodeBus) (holes v)
                            in (if list_ex (\<lambda>h. hole_type h = ''power'') cathodeHoles
                                then [createError ''LED_REVERSED'' (cid cmpt) NoDetail] else [])
                               @ (if list_ex (\<lambda>h. hole_type h = ''ground'') anodeHoles
                                  then [createError ''LED_REVERSED'' (cid cmpt) NoDetail] else []))
                         else [])
                    else []);
                 resistorErrors =
                   (if electricalType = Some (JStr ''resistor'')
                    then
                      (if length (placement cmpt) \<noteq> 2
                       then [createError ''INVALID_RESISTOR_PLACEMENT'' (cid cmpt) NoDetail]
                       else [])
                    else [])
             in if electricalType = Some (JStr ''microcontroller'')
                then
                  (case forEachThrowing (checkPwmWire cmpt componentDef)
                          (filter (\<lambda>w. startsWith (wire_from w) (cid cmpt @ ''.'')
                                      \<or> startsWith (wire_to w) (cid cmpt @ ''.'')) (wires c)) of
                     Inl e \<Rightarrow> Inl e
                   | Inr pwmErrors \<Rightarrow> Inr (ledErrors @ resistorErrors @ pwmErrors))
                else Inr (ledErrors @ resistorErrors)))"

text \<open>The body of the loop of \<^verbatim>\<open>validateComponentRules\<close>: whatever is thrown inside
  the \<^verbatim>\<open>try\<close> skips the component.\<close>

definition checkComponentRules ::
    "network \<Rightarrow> validator \<Rightarrow> circuit \<Rightarrow> registry \<Rightarrow> component \<Rightarrow> diag list \<times> registry" where
  "checkComponentRules net v c st cmpt =
     (case loadComponent net st (ctype cmpt) of
        (Inl e, st') \<Rightarrow> ([], st')
      | (Inr None, st') \<Rightarrow> ([], st')
      | (Inr (Some componentDef), st') \<Rightarrow>
          if componentDef = JNull then ([], st')
          else if truthy_opt (js_prop componentDef ''validation'')
          then
            (case validateAgainstComponentRules v cmpt componentDef c of
               Inl e \<Rightarrow> ([], st')
             | Inr es \<Rightarrow> (es, st'))
          else ([], st'))"

definition validateComponentRules ::
    "network \<Rightarrow> validator \<Rightarrow> registry \<Rightarrow> circuit \<Rightarrow> diag list \<times> registry" where
  "validateComponentRules net v st c =
     foldl (\<lambda>(errs, s) cmpt.
        (case checkComponentRules net v c s cmpt of (es, s') \<Rightarrow> (errs @ es, s')))
      ([], st) (components c)"

section \<open>The pipeline\<close>

record validationResult =
  valid :: bool
  errors :: "diag list"
  warnings :: "diag list"

text \<open>\<^verbatim>\<open>validate\<close>. The library is loaded first when it is missing; a schema diagnostic
  ends the run; layers 2 to 5 add to the same list.\<close>

definition validate ::
    "network \<Rightarrow> validator \<Rightarrow> registry \<Rightarrow> json \<Rightarrow> (js_error + validationResult) \<times> registry" where
  "validate net v st circuitJSON =
     (let (loaded, st1) =
            (if \<not> truthy_opt (componentLibrary st) then init net st else (True, st))
      in if \<not> loaded
         then (Inr \<lparr>valid = False,
                    errors = [createError ''LIBRARY_LOAD_FAILED'' ''validator'' NoDetail],
                    warnings = []\<rparr>, st1)
         else
           (case validateSchema circuitJSON of
              Inl e \<Rightarrow> (Inl e, st1)
            | Inr structuralErrors \<Rightarrow>
                if length structuralErrors > 0
                then (Inr \<lparr>valid = False, errors = structuralErrors, warnings = []\<rparr>, st1)
                else
                  (let c = circuit_of circuitJSON;
                       (referenceErrors, st2) = validateReferences net v st1 c;
                       electricalErrors = validateElectricalRules v c;
                       electricalWarnings = checkElectricalWarnings v c;
                       topologyErrors = validateTopology v c;
                       (componentErrors, st3) = validateComponentRules net v st2 c;
                       errs = structuralErrors @ referenceErrors @ electricalErrors
                              @ topologyErrors @ componentErrors
                   in (Inr \<lparr>valid = (length errs = 0), errors = errs,
                              warnings = electricalWarnings\<rparr>, st3))))"

section \<open>Notions used in the statements\<close>

text \<open>The edges of a graph: \<open>b\<close> is in the adjacency set of \<open>a\<close>. Reachability is the
  reflexive transitive closure of this relation.\<close>

definition edges :: "graph \<Rightarrow> (string \<times> string) set" where
  "edges g = {(a, b). b \<in> set (neighbors g a)}"

text \<open>The pins a list of \<^verbatim>\<open>{pin, hole, bus}\<close> triples puts on a bus.\<close>

definition pinsOn :: "string \<Rightarrow> (string \<times> string \<times> string) list \<Rightarrow> string list" where
  "pinsOn bus pbs = map fst (filter (\<lambda>(p, h, b). b = bus) pbs)"

text \<open>The breadboard hole a wire endpoint resolves to: the endpoint is a raw hole id
  (it has no dot) that the hole index knows. A wire joins power and ground directly
  when both its endpoints resolve to holes, one of type \<^verbatim>\<open>power\<close> and the other of type
  \<^verbatim>\<open>ground\<close>.\<close>

definition endpointHole :: "validator \<Rightarrow> string \<Rightarrow> hole option" where
  "endpointHole v e = (if includes_dot e then None else holeMap v e)"

definition powerGroundWire :: "validator \<Rightarrow> wire \<Rightarrow> bool" where
  "powerGroundWire v w =
     (case (endpointHole v (wire_from w), endpointHole v (wire_to w)) of
        (Some hf, Some ht) \<Rightarrow>
          (hole_type hf = ''power'' \<and> hole_type ht = ''ground'')
          \<or> (hole_type hf = ''ground'' \<and> hole_type ht = ''power'')
      | _ \<Rightarrow> False)"

text \<open>The diagnostic types of the schema layer.\<close>

definition schemaCodes :: "string list" where
  "schemaCodes =
     [''INVALID_JSON'', ''MISSING_CIRCUIT'', ''MISSING_METADATA'', ''MISSING_COMPONENTS'',
      ''MISSING_WIRES'', ''INVALID_METADATA'', ''MISSING_COMPONENT_ID'',
      ''MISSING_COMPONENT_TYPE'', ''MISSING_PLACEMENT'', ''EMPTY_PLACEMENT'',
      ''INVALID_HOLE_ID'', ''INVALID_PROPERTIES'', ''MISSING_WIRE_ID'', ''MISSING_WIRE_FROM'',
      ''MISSING_WIRE_TO'']"

text \<open>\<^verbatim>\<open>circuit.components\<close> and \<^verbatim>\<open>circuit.wires\<close> of a document (\<open>None\<close> when the
  document has no \<^verbatim>\<open>circuit\<close> or the circuit has no such field), and whether such a
  field is an array with a \<^verbatim>\<open>null\<close> element.\<close>

definition circuitField :: "json \<Rightarrow> string \<Rightarrow> json option" where
  "circuitField circuitJSON k =
     (case js_prop circuitJSON ''circuit'' of None \<Rightarrow> None | Some c \<Rightarrow> js_prop c k)"

definition hasNullElement :: "json option \<Rightarrow> bool" where
  "hasNullElement v = (case v of Some (JArr xs) \<Rightarrow> JNull \<in> set xs | _ \<Rightarrow> False)"

text \<open>The library is there when the layers start: it was loaded before, or \<^verbatim>\<open>init\<close>
  loads it now.\<close>

definition libraryAvailable :: "network \<Rightarrow> registry \<Rightarrow> bool" where
  "libraryAvailable net st = (truthy_opt (componentLibrary st) \<or> fst (init net st))"

text \<open>The registry with which the layers start: the one given when its library is
  there, otherwise the one \<^verbatim>\<open>init\<close> leaves.\<close>

definition afterLibrary :: "network \<Rightarrow> registry \<Rightarrow> registry" where
  "afterLibrary net st = (if truthy_opt (componentLibrary st) then st else snd (init net st))"

text \<open>A diagnostic of severity \<^verbatim>\<open>error\<close>, and one that moreover has a type of the schema
  layer.\<close>

definition is_error :: "diag \<Rightarrow> bool" where
  "is_error d = (severity d = ''error'')"

definition schema_diag :: "diag \<Rightarrow> bool" where
  "schema_diag d = (is_error d \<and> dtype d \<in> set schemaCodes)"

section \<open>Example data\<close>

text \<open>Eight holes of the half-size breadboard, as the generator names them: columns 1,
  5 and 9 of the main grid, and the first hole of the top power and ground rails.\<close>

definition boardExcerpt :: "hole list" where
  "boardExcerpt =
     [\<lparr>hole_id = ''1J'', hole_bus = ''bus1-top'', hole_type = ''main''\<rparr>,
      \<lparr>hole_id = ''1I'', hole_bus = ''bus1-top'', hole_type = ''main''\<rparr>,
      \<lparr>hole_id = ''5J'', hole_bus = ''bus5-top'', hole_type = ''main''\<rparr>,
      \<lparr>hole_id = ''5E'', hole_bus = ''bus5-bottom'', hole_type = ''main''\<rparr>,
      \<lparr>hole_id = ''9E'', hole_bus = ''bus9-bottom'', hole_type = ''main''\<rparr>,
      \<lparr>hole_id = ''9A'', hole_bus = ''bus9-bottom'', hole_type = ''main''\<rparr>,
      \<lparr>hole_id = ''1W'', hole_bus = ''rail-top-W'', hole_type = ''power''\<rparr>,
      \<lparr>hole_id = ''1X'', hole_bus = ''rail-top-X'', hole_type = ''ground''\<rparr>]"

definition exampleValidator :: validator where
  "exampleValidator = CircuitValidator boardExcerpt"

text \<open>A resistor from column 1 to column 5 (top), an LED from column 5 to column 9
  (bottom).\<close>

definition resistorR1 :: component where
  "resistorR1 = \<lparr>cid = ''r1'', ctype = ''resistor'',
                  placement = [(''pin0'', ''1J''), (''pin1'', ''5J'')]\<rparr>"

definition ledD1 :: component where
  "ledD1 = \<lparr>cid = ''led1'', ctype = ''led'',
             placement = [(''anode'', ''5E''), (''cathode'', ''9E'')]\<rparr>"

text \<open>A resistor with both legs in column 1 of the top half.\<close>

definition shortedResistor :: component where
  "shortedResistor = \<lparr>cid = ''r2'', ctype = ''resistor'',
                       placement = [(''pin0'', ''1J''), (''pin1'', ''1I'')]\<rparr>"

definition shortedCircuit :: circuit where
  "shortedCircuit = \<lparr>components = [ledD1, shortedResistor], wires = []\<rparr>"

definition wireRailToRail :: wire where
  "wireRailToRail = \<lparr>wid = ''w1'', wire_from = ''1W'', wire_to = ''1X'', wire_properties = None\<rparr>"

definition wireBridge :: wire where
  "wireBridge = \<lparr>wid = ''w2'', wire_from = ''5J'', wire_to = ''5E'', wire_properties = None\<rparr>"

text \<open>The resistor and the LED with no wire at all, with a wire between the two rails
  only, and with a wire from the resistor's column to the LED's.\<close>

definition unwiredCircuit :: circuit where
  "unwiredCircuit = \<lparr>components = [resistorR1, ledD1], wires = []\<rparr>"

definition openCircuit :: circuit where
  "openCircuit = \<lparr>components = [resistorR1, ledD1], wires = [wireRailToRail]\<rparr>"

definition seriesCircuit :: circuit where
  "seriesCircuit = \<lparr>components = [resistorR1, ledD1], wires = [wireBridge]\<rparr>"





text \<open>Power reaches ground through two wires and column 1: no single wire joins them.\<close>

definition wirePowerToColumn :: wire where
  "wirePowerToColumn = \<lparr>wid = ''w3'', wire_from = ''1W'', wire_to = ''1J'', wire_properties = None\<rparr>"

definition wireColumnToGround :: wire where
  "wireColumnToGround = \<lparr>wid = ''w4'', wire_from = ''1I'', wire_to = ''1X'', wire_properties = None\<rparr>"

definition twoHopCircuit :: circuit where
  "twoHopCircuit = \<lparr>components = [ledD1], wires = [wirePowerToColumn, wireColumnToGround]\<rparr>"

text \<open>Documents: the resistor and the LED joined by a wire; the same with \<^verbatim>\<open>null\<close> as
  its only component; and one without \<^verbatim>\<open>components\<close>.\<close>

definition metadataJson :: json where
  "metadataJson =
     JObj [(''name'', JStr ''Blink''), (''description'', JStr ''An LED with its resistor'')]"

definition resistorJson :: json where
  "resistorJson =
     JObj [(''id'', JStr ''r1''), (''type'', JStr ''resistor''),
           (''placement'', JObj [(''pin0'', JStr ''1J''), (''pin1'', JStr ''5J'')])]"

definition ledJson :: json where
  "ledJson =
     JObj [(''id'', JStr ''led1''), (''type'', JStr ''led''),
           (''placement'', JObj [(''anode'', JStr ''5E''), (''cathode'', JStr ''9E'')])]"

definition wireJson :: json where
  "wireJson = JObj [(''id'', JStr ''w2''), (''from'', JStr ''5J''), (''to'', JStr ''5E'')]"

definition validDocument :: json where
  "validDocument =
     JObj [(''circuit'', JObj [(''metadata'', metadataJson),
                               (''components'', JArr [resistorJson, ledJson]),
                               (''wires'', JArr [wireJson])])]"

definition nullComponentDocument :: json where
  "nullComponentDocument =
     JObj [(''circuit'', JObj [(''metadata'', metadataJson),
                               (''components'', JArr [JNull]),
                               (''wires'', JArr [])])]"

definition noComponentsDocument :: json where
  "noComponentsDocument =
     JObj [(''circuit'', JObj [(''metadata'', metadataJson),
                               (''wires'', JArr [wireJson])])]"

text \<open>A circuit that works: power rail to column 1, the resistor from column 1 to
  column 5, a wire to the LED's anode, and the LED's cathode column wired to the ground
  rail.\<close>

definition workingDocument :: json where
  "workingDocument =
     JObj [(''circuit'', JObj [(''metadata'', metadataJson),
       (''components'', JArr [resistorJson, ledJson]),
       (''wires'', JArr [
          JObj [(''id'', JStr ''w1''), (''from'', JStr ''1W''), (''to'', JStr ''1I'')],
          wireJson,
          JObj [(''id'', JStr ''w3''), (''from'', JStr ''9A''), (''to'', JStr ''1X'')]])])]"

text \<open>A network that serves a library with two component files, and one that rejects
  every fetch.\<close>

definition libraryJson :: json where
  "libraryJson =
     JObj [(''library'', JObj [(''index'',
       JObj [(''resistor'', JStr ''basic/resistor.json''), (''led'', JStr ''basic/led.json'')])])]"

definition resistorDefinition :: json where
  "resistorDefinition =
     JObj [(''component'', JObj [
       (''pins'', JObj [(''pin0'', JObj []), (''pin1'', JObj [])]),
       (''validation'', JObj [(''electricalType'', JStr ''resistor''),
                              (''rules'', JObj [(''minPins'', JNum 2)])])])]"

definition ledDefinition :: json where
  "ledDefinition =
     JObj [(''component'', JObj [
       (''pins'', JObj [(''anode'', JObj []), (''cathode'', JObj [])]),
       (''validation'', JObj [(''electricalType'', JStr ''led''),
                              (''rules'', JObj [(''polarized'', JBool True)])])])]"

definition servingNetwork :: network where
  "servingNetwork n req =
     (case req of
        LibraryRequest \<Rightarrow> Body libraryJson
      | ComponentRequest p \<Rightarrow>
          if p = JStr ''basic/resistor.json'' then Body resistorDefinition
          else if p = JStr ''basic/led.json'' then Body ledDefinition
          else HttpError)"

definition offlineNetwork :: network where
  "offlineNetwork n req = NetworkError"

text \<open>The registry after a successful \<^verbatim>\<open>init\<close>.\<close>

definition loadedRegistry :: registry where
  "loadedRegistry = snd (init servingNetwork newRegistry)"

section \<open>The searches decide reachability\<close>

text \<open>A search that returns a result found it at a bus reachable from the queue.\<close>

lemma bfs_sound:
  "bfs g visit visited queue = Some r \<Longrightarrow>
     \<exists>s \<in> set queue. \<exists>t. (s, t) \<in> (edges g)\<^sup>* \<and> visit t = Some r"
proof (induction g visit visited queue rule: bfs.induct)
  case (1 g visit visited)
  then show ?case by simp
next
  case (2 g visit visited currentBus queue)
  show ?case
  proof (cases "currentBus \<in> set visited")
    case True
    with 2 show ?thesis by auto
  next
    case False
    show ?thesis
    proof (cases "visit currentBus")
      case (Some r')
      with False 2(3) have "visit currentBus = Some r" by simp
      then show ?thesis by auto
    next
      case None
      with False 2(3)
      have "bfs g visit (visited @ [currentBus]) (queue @ neighbors g currentBus) = Some r"
        by simp
      from 2(2)[OF False None this]
      obtain s t where st: "s \<in> set (queue @ neighbors g currentBus)"
        "(s, t) \<in> (edges g)\<^sup>*" "visit t = Some r"
        by blast
      show ?thesis
      proof (cases "s \<in> set queue")
        case True
        with st show ?thesis by auto
      next
        case False
        with st(1) have "(currentBus, s) \<in> edges g" by (simp add: edges_def)
        with st(2) have "(currentBus, t) \<in> (edges g)\<^sup>*"
          by (auto intro: converse_rtrancl_into_rtrancl)
        with st(3) show ?thesis by auto
      qed
    qed
  qed
qed

lemma closed_reach:
  assumes "(s, t) \<in> (edges g)\<^sup>*" and "s \<in> V"
    and "\<forall>x \<in> V. \<forall>w. (x, w) \<in> edges g \<longrightarrow> w \<in> V"
  shows "t \<in> V"
  using assms by (induction rule: rtrancl_induct) auto

text \<open>The invariant of the loop: no visited bus passed the test, and every neighbour
  of a visited bus is visited or queued. Under it the search cannot miss a bus that
  passes the test and is reachable from a visited or queued bus.\<close>

lemma bfs_complete:
  assumes "\<forall>x \<in> set visited. visit x = None
             \<and> (\<forall>w. (x, w) \<in> edges g \<longrightarrow> w \<in> set visited \<union> set queue)"
    and "s \<in> set visited \<union> set queue" and "(s, t) \<in> (edges g)\<^sup>*" and "visit t \<noteq> None"
  shows "bfs g visit visited queue \<noteq> None"
  using assms
proof (induction g visit visited queue rule: bfs.induct)
  case (1 g visit visited)
  have "t \<in> set visited"
    using closed_reach[OF 1(3), of "set visited"] 1(1,2) by auto
  with 1(1,4) show ?case by auto
next
  case (2 g visit visited currentBus queue)
  show ?case
  proof (cases "currentBus \<in> set visited")
    case True
    have "bfs g visit visited queue \<noteq> None"
    proof (rule 2(1)[OF True _ _ 2(5) 2(6)])
      show "\<forall>x\<in>set visited. visit x = None
              \<and> (\<forall>w. (x, w) \<in> edges g \<longrightarrow> w \<in> set visited \<union> set queue)"
        using 2(3) True by auto
      show "s \<in> set visited \<union> set queue" using 2(4) True by auto
    qed
    with True show ?thesis by simp
  next
    case False
    show ?thesis
    proof (cases "visit currentBus")
      case (Some r)
      with False show ?thesis by simp
    next
      case None
      have "bfs g visit (visited @ [currentBus]) (queue @ neighbors g currentBus) \<noteq> None"
      proof (rule 2(2)[OF False None _ _ 2(5) 2(6)])
        show "\<forall>x\<in>set (visited @ [currentBus]). visit x = None \<and>
                (\<forall>w. (x, w) \<in> edges g \<longrightarrow>
                   w \<in> set (visited @ [currentBus]) \<union> set (queue @ neighbors g currentBus))"
          using 2(3) None by (auto simp: edges_def)
        show "s \<in> set (visited @ [currentBus]) \<union> set (queue @ neighbors g currentBus)"
          using 2(4) by auto
      qed
      with False None show ?thesis by simp
    qed
  qed
qed

lemma bfs_iff:
  "bfs g visit [] [s] \<noteq> None \<longleftrightarrow> (\<exists>t. (s, t) \<in> (edges g)\<^sup>* \<and> visit t \<noteq> None)"
proof
  assume "bfs g visit [] [s] \<noteq> None"
  then obtain r where "bfs g visit [] [s] = Some r" by auto
  from bfs_sound[OF this] show "\<exists>t. (s, t) \<in> (edges g)\<^sup>* \<and> visit t \<noteq> None" by auto
next
  assume "\<exists>t. (s, t) \<in> (edges g)\<^sup>* \<and> visit t \<noteq> None"
  then obtain t where "(s, t) \<in> (edges g)\<^sup>*" "visit t \<noteq> None" by blast
  then show "bfs g visit [] [s] \<noteq> None"
    using bfs_complete[of "[]" visit g "[s]" s t] by simp
qed

lemma pathExists_iff:
  "pathExists g startBus (Some targetBus) \<longleftrightarrow> (startBus, targetBus) \<in> (edges g)\<^sup>*"
  unfolding pathExists_def
  using bfs_iff[of g "\<lambda>currentBus. if Some currentBus = Some targetBus then Some True else None"
      startBus]
  by (auto split: if_splits)

lemma pathExists_undefined: "\<not> pathExists g startBus None"
  unfolding pathExists_def
  using bfs_iff[of g "\<lambda>currentBus. if Some currentBus = None then Some True else None" startBus]
  by simp

text \<open>
  C5. \<^verbatim>\<open>pathExists(graph, startBus, targetBus)\<close> returns true exactly when the target is
  reachable from the start by following the edges of the graph; in particular it
  returns true when the two are equal. So for two holes with the same bus, each bus is
  found from the other in the graph of any circuit, whatever its wires.
\<close>

theorem pathExists_decides_reachability:
  "(pathExists g startBus (Some targetBus) \<longleftrightarrow> (startBus, targetBus) \<in> (edges g)\<^sup>*)
   \<and> pathExists g startBus (Some startBus)
   \<and> (hole_bus h1 = hole_bus h2 \<longrightarrow>
        pathExists (buildBusConnectivityGraph v c) (hole_bus h1) (Some (hole_bus h2))
        \<and> pathExists (buildBusConnectivityGraph v c) (hole_bus h2) (Some (hole_bus h1)))"
  by (simp add: pathExists_iff)

theorem pathExists_decides_reachability_witness:
  "pathExists (buildBusConnectivityGraph exampleValidator seriesCircuit) ''bus1-top'' (Some ''bus9-bottom'')
   \<and> (''bus1-top'', ''bus9-bottom'') \<in> (edges (buildBusConnectivityGraph exampleValidator seriesCircuit))\<^sup>*
   \<and> pathExists (buildBusConnectivityGraph exampleValidator unwiredCircuit)
        (hole_bus (boardExcerpt ! 0)) (Some (hole_bus (boardExcerpt ! 1)))"
proof -
  have p: "pathExists (buildBusConnectivityGraph exampleValidator seriesCircuit)
             ''bus1-top'' (Some ''bus9-bottom'')"
    by code_simp
  have h: "hole_bus (boardExcerpt ! 0) = hole_bus (boardExcerpt ! 1)"
    by (simp add: boardExcerpt_def)
  show ?thesis
    using p h
      pathExists_decides_reachability[of "buildBusConnectivityGraph exampleValidator seriesCircuit"
        "''bus1-top''" "''bus9-bottom''" "boardExcerpt ! 0" "boardExcerpt ! 1"
        exampleValidator unwiredCircuit]
    by blast
qed

section \<open>The bus graph\<close>

lemma neighbors_ensureKey: "neighbors (ensureKey a g) x = neighbors g x"
  by (auto simp: neighbors_def ensureKey_def update_conv')

lemma dom_ensureKey: "map_of (ensureKey a g) x = None \<longleftrightarrow> x \<noteq> a \<and> map_of g x = None"
  by (auto simp: ensureKey_def update_conv')

lemma neighbors_map_entry:
  "neighbors (AList.map_entry a f g) x
     = (if x = a then (case map_of g a of None \<Rightarrow> [] | Some ns \<Rightarrow> f ns) else neighbors g x)"
  by (simp add: neighbors_def map_of_map_entry split: option.splits)

lemma dom_map_entry_None: "map_of (AList.map_entry a f g) x = None \<longleftrightarrow> map_of g x = None"
  by (simp add: map_of_map_entry split: option.splits)

lemma set_set_add: "set (set_add x xs) = insert x (set xs)"
  by (auto simp: set_add_def)

text \<open>\<^verbatim>\<open>addEdge\<close> adds the two directed edges, or nothing when a bus is falsy or the two
  are equal.\<close>

lemma neighbors_addEdge:
  "set (neighbors (addEdge g a b) x) =
     set (neighbors g x)
     \<union> (if a \<noteq> [] \<and> b \<noteq> [] \<and> a \<noteq> b
        then (if x = a then {b} else {}) \<union> (if x = b then {a} else {}) else {})"
proof (cases "a \<noteq> [] \<and> b \<noteq> [] \<and> a \<noteq> b")
  case False
  then show ?thesis by (auto simp: addEdge_def)
next
  case True
  define g2 where "g2 = ensureKey b (ensureKey a g)"
  have nb2: "neighbors g2 y = neighbors g y" for y
    by (simp add: g2_def neighbors_ensureKey)
  have da: "map_of g2 a \<noteq> None" and db: "map_of g2 b \<noteq> None"
    by (simp_all add: g2_def dom_ensureKey)
  from da obtain na where na: "map_of g2 a = Some na" by auto
  then have na': "neighbors g a = na" using nb2[of a] by (simp add: neighbors_def)
  define g3 where "g3 = AList.map_entry a (set_add b) g2"
  have "map_of g3 b \<noteq> None" using db by (simp add: g3_def dom_map_entry_None)
  then obtain nb where nb: "map_of g3 b = Some nb" by auto
  have nb': "nb = neighbors g b"
    using nb True nb2[of b]
    by (simp add: g3_def map_of_map_entry neighbors_def split: option.splits)
  have eq: "addEdge g a b = AList.map_entry b (set_add a) g3"
    using True by (simp add: addEdge_def g3_def g2_def)
  show ?thesis
  proof (cases "x = b")
    case True
    then show ?thesis using \<open>a \<noteq> [] \<and> b \<noteq> [] \<and> a \<noteq> b\<close> nb nb'
      by (auto simp: eq neighbors_map_entry set_set_add)
  next
    case False
    then have "neighbors (addEdge g a b) x = neighbors g3 x"
      by (simp add: eq neighbors_map_entry)
    also have "set \<dots> = (if x = a then insert b (set (neighbors g a)) else set (neighbors g x))"
      using na na' by (simp add: g3_def neighbors_map_entry set_set_add nb2)
    finally show ?thesis using False True by auto
  qed
qed

lemma edges_addEdge:
  "edges (addEdge g a b) =
     edges g \<union> (if a \<noteq> [] \<and> b \<noteq> [] \<and> a \<noteq> b then {(a, b), (b, a)} else {})"
  unfolding edges_def by (auto simp: neighbors_addEdge split: if_splits)

lemma edges_fold_pairs:
  "edges (foldl (\<lambda>g' (b1, b2). addEdge g' b1 b2) g ps) =
     edges g \<union> {(a, b). a \<noteq> [] \<and> b \<noteq> [] \<and> a \<noteq> b
                    \<and> ((a, b) \<in> set ps \<or> (b, a) \<in> set ps)}"
proof (induction ps arbitrary: g)
  case Nil
  show ?case by simp
next
  case (Cons p ps)
  obtain x y where p: "p = (x, y)" by (cases p)
  show ?case unfolding p by (simp add: Cons.IH edges_addEdge) blast
qed

lemma pairs_subset: "(a, b) \<in> set (pairs xs) \<Longrightarrow> a \<in> set xs \<and> b \<in> set xs"
  by (induction xs) auto

lemma pairs_cover:
  "a \<in> set xs \<Longrightarrow> b \<in> set xs \<Longrightarrow> a \<noteq> b
     \<Longrightarrow> (a, b) \<in> set (pairs xs) \<or> (b, a) \<in> set (pairs xs)"
  by (induction xs) auto

lemma placementBuses_nonempty: "b \<in> set (placementBuses v cmpt) \<Longrightarrow> b \<noteq> []"
  by (simp add: placementBuses_def)

lemma edges_addComponentEdges:
  "edges (addComponentEdges v g k) =
     edges g \<union> {(a, b). a \<noteq> b \<and> a \<in> set (placementBuses v k) \<and> b \<in> set (placementBuses v k)}"
proof -
  have "{(a, b). a \<noteq> [] \<and> b \<noteq> [] \<and> a \<noteq> b
          \<and> ((a, b) \<in> set (pairs (placementBuses v k))
              \<or> (b, a) \<in> set (pairs (placementBuses v k)))}
        = {(a, b). a \<noteq> b \<and> a \<in> set (placementBuses v k) \<and> b \<in> set (placementBuses v k)}"
    using pairs_subset[of _ _ "placementBuses v k"] pairs_cover[of _ "placementBuses v k"]
      placementBuses_nonempty[of _ v k]
    by blast
  then show ?thesis by (simp add: addComponentEdges_def edges_fold_pairs)
qed

lemma edges_fold_components:
  "edges (foldl (addComponentEdges v) g cs) =
     edges g \<union> {(a, b). a \<noteq> b \<and> (\<exists>cmpt \<in> set cs. a \<in> set (placementBuses v cmpt)
                                        \<and> b \<in> set (placementBuses v cmpt))}"
proof (induction cs arbitrary: g)
  case Nil
  show ?case by simp
next
  case (Cons k cs)
  show ?case by (simp add: Cons.IH edges_addComponentEdges) blast
qed

lemma edges_addWireEdge:
  "edges (addWireEdge v c g w) = edges g \<union>
     {(a, b). a \<noteq> [] \<and> b \<noteq> [] \<and> a \<noteq> b \<and>
        ((getEndpointBus v (wire_from w) c = Some a \<and> getEndpointBus v (wire_to w) c = Some b)
         \<or> (getEndpointBus v (wire_from w) c = Some b \<and> getEndpointBus v (wire_to w) c = Some a))}"
  by (auto simp: addWireEdge_def edges_addEdge split: option.splits)

lemma edges_fold_wires:
  "edges (foldl (addWireEdge v c) g ws) = edges g \<union>
     {(a, b). a \<noteq> [] \<and> b \<noteq> [] \<and> a \<noteq> b \<and> (\<exists>w \<in> set ws.
        (getEndpointBus v (wire_from w) c = Some a \<and> getEndpointBus v (wire_to w) c = Some b)
         \<or> (getEndpointBus v (wire_from w) c = Some b \<and> getEndpointBus v (wire_to w) c = Some a))}"
proof (induction ws arbitrary: g)
  case Nil
  show ?case by simp
next
  case (Cons w ws)
  show ?case by (simp add: Cons.IH edges_addWireEdge) blast
qed

lemma edges_nil: "edges [] = {}"
  by (simp add: edges_def neighbors_def)

text \<open>The edges of the graph of a circuit, exactly.\<close>

lemma edges_buildBusConnectivityGraph:
  "(a, b) \<in> edges (buildBusConnectivityGraph v c) \<longleftrightarrow>
     a \<noteq> b \<and>
     ((\<exists>cmpt \<in> set (components c). a \<in> set (placementBuses v cmpt)
                                  \<and> b \<in> set (placementBuses v cmpt))
      \<or> (a \<noteq> [] \<and> b \<noteq> [] \<and> (\<exists>w \<in> set (wires c).
           (getEndpointBus v (wire_from w) c = Some a \<and> getEndpointBus v (wire_to w) c = Some b)
           \<or> (getEndpointBus v (wire_from w) c = Some b
               \<and> getEndpointBus v (wire_to w) c = Some a))))"
  unfolding buildBusConnectivityGraph_def
  by (simp add: edges_fold_wires edges_fold_components edges_nil) blast

lemma sym_edges_buildBusConnectivityGraph: "sym (edges (buildBusConnectivityGraph v c))"
  unfolding sym_def edges_buildBusConnectivityGraph by blast

text \<open>
  C6. In the graph \<^verbatim>\<open>buildBusConnectivityGraph\<close> builds, \<open>b\<close> is in the adjacency set of
  \<open>a\<close> exactly when \<open>a\<close> is in that of \<open>b\<close>; no bus is in its own adjacency set; and
  \<open>b\<close> is in the adjacency set of \<open>a\<close> exactly when the two differ and either some
  component has placed pins that resolve to \<open>a\<close> and to \<open>b\<close>, or some wire has its two
  endpoints resolve to \<open>a\<close> and \<open>b\<close>, both non-empty (\<open>placementBuses\<close> holds only the
  buses that resolved).
\<close>

theorem graph_symmetric_irreflexive:
  "(b \<in> set (neighbors (buildBusConnectivityGraph v c) a)
      \<longleftrightarrow> a \<in> set (neighbors (buildBusConnectivityGraph v c) b))
   \<and> a \<notin> set (neighbors (buildBusConnectivityGraph v c) a)
   \<and> (b \<in> set (neighbors (buildBusConnectivityGraph v c) a) \<longleftrightarrow>
        a \<noteq> b \<and>
        ((\<exists>cmpt \<in> set (components c). a \<in> set (placementBuses v cmpt)
                                     \<and> b \<in> set (placementBuses v cmpt))
         \<or> (a \<noteq> [] \<and> b \<noteq> [] \<and> (\<exists>w \<in> set (wires c).
              (getEndpointBus v (wire_from w) c = Some a
               \<and> getEndpointBus v (wire_to w) c = Some b)
              \<or> (getEndpointBus v (wire_from w) c = Some b
                  \<and> getEndpointBus v (wire_to w) c = Some a)))))"
proof -
  have e: "y \<in> set (neighbors (buildBusConnectivityGraph v c) x)
            \<longleftrightarrow> (x, y) \<in> edges (buildBusConnectivityGraph v c)" for x y
    by (simp add: edges_def)
  show ?thesis unfolding e edges_buildBusConnectivityGraph by blast
qed

theorem graph_symmetric_irreflexive_witness:
  "''bus5-top'' \<in> set (neighbors (buildBusConnectivityGraph exampleValidator seriesCircuit) ''bus1-top'')
   \<and> ''bus1-top'' \<in> set (neighbors (buildBusConnectivityGraph exampleValidator seriesCircuit) ''bus5-top'')
   \<and> ''bus1-top'' \<notin> set (neighbors (buildBusConnectivityGraph exampleValidator seriesCircuit) ''bus1-top'')"
proof -
  have "''bus5-top'' \<in> set (neighbors (buildBusConnectivityGraph exampleValidator seriesCircuit) ''bus1-top'')"
    by code_simp
  then show ?thesis
    using graph_symmetric_irreflexive[of "''bus5-top''" exampleValidator seriesCircuit "''bus1-top''"]
      graph_symmetric_irreflexive[of "''bus1-top''" exampleValidator seriesCircuit "''bus1-top''"]
    by blast
qed

section \<open>Layer 3: short circuits\<close>

lemma map_of_groupStep:
  "map_of (groupStep bc (p, h, b)) x =
     (if x = b then Some ((case map_of bc b of None \<Rightarrow> [] | Some ps \<Rightarrow> ps) @ [p])
      else map_of bc x)"
  by (auto simp: groupStep_def map_of_map_entry ensureKey_def update_conv' split: option.splits)

lemma distinct_groupStep:
  "distinct (map fst bc) \<Longrightarrow> distinct (map fst (groupStep bc x))"
  by (cases x) (auto simp: groupStep_def ensureKey_def intro!: distinct_map_entry distinct_update)

lemma map_of_fold_groupStep:
  "map_of (foldl groupStep bc pbs) x =
     (if pinsOn x pbs = [] then map_of bc x
      else Some ((case map_of bc x of None \<Rightarrow> [] | Some ps \<Rightarrow> ps) @ pinsOn x pbs))"
proof (induction pbs arbitrary: bc)
  case Nil
  show ?case by (simp add: pinsOn_def)
next
  case (Cons pb pbs)
  obtain p h b where pb: "pb = (p, h, b)" by (cases pb)
  show ?case
    unfolding pb by (simp add: Cons.IH map_of_groupStep) (auto simp: pinsOn_def)
qed

lemma distinct_fold_groupStep:
  "distinct (map fst bc) \<Longrightarrow> distinct (map fst (foldl groupStep bc pbs))"
  by (induction pbs arbitrary: bc) (auto simp: distinct_groupStep)

text \<open>After the grouping, \<^verbatim>\<open>busCounts\<close> has one entry for every bus that carries a pin,
  and the entry lists the pins on that bus.\<close>

lemma groupByBus_entries:
  "(bus, pins) \<in> set (groupByBus pbs) \<longleftrightarrow> pins = pinsOn bus pbs \<and> pins \<noteq> []"
proof -
  have d: "distinct (map fst (groupByBus pbs))"
    unfolding groupByBus_def by (rule distinct_fold_groupStep) simp
  have "(bus, pins) \<in> set (groupByBus pbs) \<longleftrightarrow> map_of (groupByBus pbs) bus = Some pins"
    using d by simp
  also have "\<dots> \<longleftrightarrow> pins = pinsOn bus pbs \<and> pins \<noteq> []"
    unfolding groupByBus_def map_of_fold_groupStep by auto
  finally show ?thesis .
qed

lemma checkBusConflicts_iff:
  "d \<in> set (checkBusConflicts v cmpt) \<longleftrightarrow>
     (\<exists>bus. length (pinsOn bus (pinBuses v cmpt)) > 1 \<and>
        d = createError ''SHORT_CIRCUIT'' (cid cmpt)
              (ShortCircuitDetail bus (pinsOn bus (pinBuses v cmpt))
                 (map (\<lambda>(p, h, b). h) (filter (\<lambda>(p, h, b). b = bus) (pinBuses v cmpt)))))"
proof
  assume "d \<in> set (checkBusConflicts v cmpt)"
  then obtain bus pins where "(bus, pins) \<in> set (groupByBus (pinBuses v cmpt))" "length pins > 1"
    "d = createError ''SHORT_CIRCUIT'' (cid cmpt)
              (ShortCircuitDetail bus pins
                 (map (\<lambda>(p, h, b). h) (filter (\<lambda>(p, h, b). b = bus) (pinBuses v cmpt))))"
    unfolding checkBusConflicts_def Let_def by (auto split: if_splits)
  then show "\<exists>bus. length (pinsOn bus (pinBuses v cmpt)) > 1 \<and>
        d = createError ''SHORT_CIRCUIT'' (cid cmpt)
              (ShortCircuitDetail bus (pinsOn bus (pinBuses v cmpt))
                 (map (\<lambda>(p, h, b). h) (filter (\<lambda>(p, h, b). b = bus) (pinBuses v cmpt))))"
    by (auto simp: groupByBus_entries)
next
  assume "\<exists>bus. length (pinsOn bus (pinBuses v cmpt)) > 1 \<and>
        d = createError ''SHORT_CIRCUIT'' (cid cmpt)
              (ShortCircuitDetail bus (pinsOn bus (pinBuses v cmpt))
                 (map (\<lambda>(p, h, b). h) (filter (\<lambda>(p, h, b). b = bus) (pinBuses v cmpt))))"
  then obtain bus where l: "length (pinsOn bus (pinBuses v cmpt)) > 1"
    and d: "d = createError ''SHORT_CIRCUIT'' (cid cmpt)
              (ShortCircuitDetail bus (pinsOn bus (pinBuses v cmpt))
                 (map (\<lambda>(p, h, b). h) (filter (\<lambda>(p, h, b). b = bus) (pinBuses v cmpt))))"
    by blast
  from l have "(bus, pinsOn bus (pinBuses v cmpt)) \<in> set (groupByBus (pinBuses v cmpt))"
    by (auto simp: groupByBus_entries)
  then show "d \<in> set (checkBusConflicts v cmpt)"
    unfolding checkBusConflicts_def Let_def using l d by force
qed

lemma pinBuses_buses: "map (\<lambda>(p, h, b). b) (pinBuses v cmpt) = placementBuses v cmpt"
proof -
  have "map (\<lambda>(p, h, b). b) (concat (map (\<lambda>(pinName, holeId).
        (case busMap v holeId of
           None \<Rightarrow> []
         | Some bus \<Rightarrow> if bus \<noteq> [] then [(pinName, holeId, bus)] else [])) pl))
     = filter (\<lambda>b. b \<noteq> []) (List.map_filter (busMap v) (map snd pl))" for pl
    by (induction pl) (auto simp: List.map_filter_simps split: option.splits)
  then show ?thesis by (simp add: pinBuses_def placementBuses_def)
qed

lemma length_pinsOn: "length (pinsOn bus pbs) = count_list (map (\<lambda>(p, h, b). b) pbs) bus"
  by (induction pbs) (auto simp: pinsOn_def)

lemma distinct_count_le1: "distinct xs \<Longrightarrow> count_list xs x \<le> 1"
  by (induction xs) (auto simp: count_list_0_iff)

lemma checkBusConflicts_dtype:
  "d \<in> set (checkBusConflicts v cmpt) \<Longrightarrow> dtype d = ''SHORT_CIRCUIT''"
  unfolding checkBusConflicts_iff by (auto simp: createError_def)

text \<open>
  C3. When two different entries of the placement of a component of the circuit name
  holes that the bus index maps to the same (non-empty) bus, the electrical rule check
  emits, from \<^verbatim>\<open>checkBusConflicts\<close> of that component, a \<^verbatim>\<open>SHORT_CIRCUIT\<close> located at
  the component, naming that bus, with a pin list of at least two pins that contains
  both. When the buses of the placed pins of a component are pairwise different,
  \<^verbatim>\<open>checkBusConflicts\<close> emits nothing for it.
\<close>

theorem short_circuit_detection:
  "(cmpt \<in> set (components c)
     \<and> placement cmpt = pre @ (pin1, hole1) # mid @ (pin2, hole2) # post
     \<and> busMap v hole1 = Some bus \<and> busMap v hole2 = Some bus \<and> bus \<noteq> []
    \<longrightarrow> (\<exists>pins hls. createError ''SHORT_CIRCUIT'' (cid cmpt) (ShortCircuitDetail bus pins hls)
                        \<in> set (checkBusConflicts v cmpt)
                   \<and> createError ''SHORT_CIRCUIT'' (cid cmpt) (ShortCircuitDetail bus pins hls)
                        \<in> set (validateElectricalRules v c)
                   \<and> length pins \<ge> 2 \<and> pin1 \<in> set pins \<and> pin2 \<in> set pins))
   \<and> (distinct (placementBuses v cmpt) \<longrightarrow> checkBusConflicts v cmpt = [])"
proof (intro conjI impI)
  assume a: "cmpt \<in> set (components c)
     \<and> placement cmpt = pre @ (pin1, hole1) # mid @ (pin2, hole2) # post
     \<and> busMap v hole1 = Some bus \<and> busMap v hole2 = Some bus \<and> bus \<noteq> []"
  define pbs where "pbs = pinBuses v cmpt"
  have pbs: "pbs = pinBuses v (cmpt\<lparr>placement := pre\<rparr>) @ [(pin1, hole1, bus)]
                @ pinBuses v (cmpt\<lparr>placement := mid\<rparr>) @ [(pin2, hole2, bus)]
                @ pinBuses v (cmpt\<lparr>placement := post\<rparr>)"
    using a by (simp add: pbs_def pinBuses_def)
  have l: "length (pinsOn bus pbs) > 1"
    and m: "pin1 \<in> set (pinsOn bus pbs)" "pin2 \<in> set (pinsOn bus pbs)"
    unfolding pbs by (simp_all add: pinsOn_def)
  have d: "createError ''SHORT_CIRCUIT'' (cid cmpt)
              (ShortCircuitDetail bus (pinsOn bus pbs)
                 (map (\<lambda>(p, h, b). h) (filter (\<lambda>(p, h, b). b = bus) pbs)))
          \<in> set (checkBusConflicts v cmpt)"
    unfolding checkBusConflicts_iff using l by (auto simp: pbs_def)
  with a have "createError ''SHORT_CIRCUIT'' (cid cmpt)
              (ShortCircuitDetail bus (pinsOn bus pbs)
                 (map (\<lambda>(p, h, b). h) (filter (\<lambda>(p, h, b). b = bus) pbs)))
          \<in> set (validateElectricalRules v c)"
    by (auto simp: validateElectricalRules_def)
  with d l m
  show "\<exists>pins hls. createError ''SHORT_CIRCUIT'' (cid cmpt) (ShortCircuitDetail bus pins hls)
                        \<in> set (checkBusConflicts v cmpt)
                   \<and> createError ''SHORT_CIRCUIT'' (cid cmpt) (ShortCircuitDetail bus pins hls)
                        \<in> set (validateElectricalRules v c)
                   \<and> length pins \<ge> 2 \<and> pin1 \<in> set pins \<and> pin2 \<in> set pins"
    by (intro exI[of _ "pinsOn bus pbs"] exI) auto
next
  assume d: "distinct (placementBuses v cmpt)"
  have le: "length (pinsOn bus (pinBuses v cmpt)) \<le> 1" for bus
    unfolding length_pinsOn pinBuses_buses using d by (rule distinct_count_le1)
  have "x \<notin> set (checkBusConflicts v cmpt)" for x
  proof
    assume "x \<in> set (checkBusConflicts v cmpt)"
    then obtain bus where "length (pinsOn bus (pinBuses v cmpt)) > 1"
      unfolding checkBusConflicts_iff by blast
    with le[of bus] show False by simp
  qed
  then show "checkBusConflicts v cmpt = []"
    by (cases "checkBusConflicts v cmpt") auto
qed

theorem short_circuit_detection_witness:
  "(\<exists>pins hls. createError ''SHORT_CIRCUIT'' ''r2'' (ShortCircuitDetail ''bus1-top'' pins hls)
                   \<in> set (validateElectricalRules exampleValidator shortedCircuit)
               \<and> length pins \<ge> 2 \<and> ''pin0'' \<in> set pins \<and> ''pin1'' \<in> set pins)
   \<and> distinct (placementBuses exampleValidator resistorR1)
   \<and> checkBusConflicts exampleValidator resistorR1 = []"
proof -
  have p: "shortedResistor \<in> set (components shortedCircuit)"
    "placement shortedResistor = [] @ (''pin0'', ''1J'') # [] @ (''pin1'', ''1I'') # []"
    and i: "cid shortedResistor = ''r2''"
    by (simp_all add: shortedResistor_def shortedCircuit_def)
  have b: "busMap exampleValidator ''1J'' = Some ''bus1-top''"
    "busMap exampleValidator ''1I'' = Some ''bus1-top''"
    by (simp_all add: exampleValidator_def CircuitValidator_def buildBusMap_def boardExcerpt_def)
  have d: "distinct (placementBuses exampleValidator resistorR1)"
    by code_simp
  show ?thesis
    using p b d
      short_circuit_detection[of shortedResistor shortedCircuit "[]" "''pin0''" "''1J''" "[]"
        "''pin1''" "''1I''" "[]" exampleValidator "''bus1-top''"]
      short_circuit_detection[of resistorR1 shortedCircuit "[]" "''pin0''" "''1J''" "[]"
        "''pin1''" "''1I''" "[]" exampleValidator "''bus1-top''"]
    unfolding i by auto
qed

section \<open>Layer 3: power joined to ground by one wire\<close>

lemma checkNet_wire:
  "map (\<lambda>d. (dtype d, location d)) (checkNet v (i, set_add (wire_to w) [wire_from w]))
     = (if powerGroundWire v w then [(''POWER_GROUND_SHORT'', ''net-'' @ show_nat i)] else [])"
  by (auto simp: checkNet_def set_add_def powerGroundWire_def endpointHole_def Let_def
        List.map_filter_simps createError_def split: option.splits)

lemma checkPowerGroundShorts_wires:
  "checkPowerGroundShorts v c =
     concat (map (\<lambda>(i, w). checkNet v (i, set_add (wire_to w) [wire_from w]))
       (enumerate 0 (wires c)))"
  unfolding checkPowerGroundShorts_def buildNets_def
  by (simp add: comp_def case_prod_unfold)

lemma map_concat_filter:
  assumes "\<And>x. map k (f x) = (if P x then [h x] else [])"
  shows "map k (concat (map f xs)) = map h (filter P xs)"
  by (induction xs) (simp_all add: assms)

lemma checkNet_dtype: "d \<in> set (checkNet v n) \<Longrightarrow> dtype d = ''POWER_GROUND_SHORT''"
  by (cases n) (simp add: checkNet_def Let_def createError_def split: if_splits)

lemma checkPowerGroundShorts_dtype:
  "d \<in> set (checkPowerGroundShorts v c) \<Longrightarrow> dtype d = ''POWER_GROUND_SHORT''"
  unfolding checkPowerGroundShorts_def by (auto dest: checkNet_dtype)

lemma power_ground_of_wires:
  "map (\<lambda>d. (dtype d, location d)) (checkPowerGroundShorts v c) =
     map (\<lambda>(i, w). (''POWER_GROUND_SHORT'', ''net-'' @ show_nat i))
       (filter (\<lambda>(i, w). powerGroundWire v w) (enumerate 0 (wires c)))"
  unfolding checkPowerGroundShorts_wires
proof (rule map_concat_filter)
  fix x :: "nat \<times> wire"
  obtain i w where x: "x = (i, w)" by (cases x)
  show "map (\<lambda>d. (dtype d, location d))
          (case x of (i, w) \<Rightarrow> checkNet v (i, set_add (wire_to w) [wire_from w]))
        = (if (case x of (i, w) \<Rightarrow> powerGroundWire v w)
           then [case x of (i, w) \<Rightarrow> (''POWER_GROUND_SHORT'', ''net-'' @ show_nat i)] else [])"
    unfolding x prod.case by (rule checkNet_wire)
qed

lemma power_ground_only_from_wires:
  "filter (\<lambda>d. dtype d = ''POWER_GROUND_SHORT'') (validateElectricalRules v c)
     = checkPowerGroundShorts v c"
proof -
  have "filter (\<lambda>d. dtype d = ''POWER_GROUND_SHORT'') (concat (map (checkBusConflicts v) cs)) = []"
    for cs
    by (induction cs) (auto simp: filter_empty_conv dest: checkBusConflicts_dtype)
  moreover have "filter (\<lambda>d. dtype d = ''POWER_GROUND_SHORT'') (checkPowerGroundShorts v c)
                   = checkPowerGroundShorts v c"
    by (simp add: filter_id_conv checkPowerGroundShorts_dtype)
  ultimately show ?thesis by (simp add: validateElectricalRules_def)
qed

text \<open>
  C7. The \<^verbatim>\<open>POWER_GROUND_SHORT\<close> diagnostics of the electrical layer are, in order, one
  for each wire (numbered from 0 in circuit order, reported as \<^verbatim>\<open>net-\<close>\<open>i\<close>) whose two
  endpoints both resolve to breadboard holes of which one is of type \<^verbatim>\<open>power\<close> and the
  other of type \<^verbatim>\<open>ground\<close>. Whether wire \<open>i\<close> is reported depends on that wire alone:
  no other wire, and no component, enters the condition.
\<close>

theorem power_ground_short_direct_only:
  "map (\<lambda>d. (dtype d, location d))
     (filter (\<lambda>d. dtype d = ''POWER_GROUND_SHORT'') (validateElectricalRules v c))
   = map (\<lambda>(i, w). (''POWER_GROUND_SHORT'', ''net-'' @ show_nat i))
       (filter (\<lambda>(i, w). powerGroundWire v w) (enumerate 0 (wires c)))"
  by (simp only: power_ground_only_from_wires power_ground_of_wires)

theorem power_ground_short_direct_only_witness:
  "map (\<lambda>d. (dtype d, location d))
     (filter (\<lambda>d. dtype d = ''POWER_GROUND_SHORT'') (validateElectricalRules exampleValidator openCircuit))
     = [(''POWER_GROUND_SHORT'', ''net-0'')]
   \<and> filter (\<lambda>d. dtype d = ''POWER_GROUND_SHORT'')
        (validateElectricalRules exampleValidator twoHopCircuit) = []"
proof -
  have w1: "powerGroundWire exampleValidator wireRailToRail"
    by code_simp
  have w2: "\<not> powerGroundWire exampleValidator wirePowerToColumn"
    "\<not> powerGroundWire exampleValidator wireColumnToGround"
    by code_simp+
  show ?thesis
    using power_ground_short_direct_only[of exampleValidator openCircuit]
      power_ground_short_direct_only[of exampleValidator twoHopCircuit] w1 w2
    by (simp add: openCircuit_def twoHopCircuit_def show_nat.simps)
qed

section \<open>Layer 4: which components are examined, and the series check\<close>



lemma checkSeriesConnections_dtype:
  "d \<in> set (checkSeriesConnections v c g) \<Longrightarrow> dtype d = ''OPEN_CIRCUIT''"
  unfolding checkSeriesConnections_def Let_def
  by (auto simp: createError_def split: option.splits if_splits)

lemma checkCompletePaths_dtype:
  "d \<in> set (checkCompletePaths v c g)
     \<Longrightarrow> dtype d = ''NO_GROUND_PATH'' \<or> dtype d = ''NO_SOURCE_PATH''"
  unfolding checkCompletePaths_def Let_def
  by (auto simp: createError_def split: option.splits if_splits)

lemma checkIsolatedComponents_dtype:
  "d \<in> set (checkIsolatedComponents c g) \<Longrightarrow> dtype d = ''DISCONNECTED_GROUPS''"
  unfolding checkIsolatedComponents_def Let_def
  by (auto simp: createError_def split: if_splits)





lemma sym_rtrancl_iff: "sym r \<Longrightarrow> (a, b) \<in> r\<^sup>* \<longleftrightarrow> (b, a) \<in> r\<^sup>*"
  using sym_rtrancl[of r] by (auto simp: sym_def)

text \<open>The series check in terms of reachability, for any graph.\<close>

lemma checkSeriesConnections_iff:
  assumes "find is_led (components c) = Some led"
    and "find is_resistor (components c) = Some resistor"
  shows "checkSeriesConnections v c g =
     (if \<exists>r \<in> set (placementBuses v resistor). \<exists>t.
            (pinBus v led ''anode'' = Some t \<or> pinBus v led ''cathode'' = Some t)
            \<and> (r, t) \<in> (edges g)\<^sup>*
      then []
      else [createError ''OPEN_CIRCUIT'' ''led-resistor''
              (OpenCircuitDetail [pinBus v led ''anode'', pinBus v led ''cathode'']
                 (placementBuses v resistor))])"
proof -
  have pe: "pathExists g r x \<longleftrightarrow> (\<exists>t. x = Some t \<and> (r, t) \<in> (edges g)\<^sup>*)" for r x
    by (cases x) (simp_all add: pathExists_undefined pathExists_iff)
  have direct: "list_ex (\<lambda>b. Some b = x) rs
                  \<Longrightarrow> list_ex (\<lambda>r. pathExists g r x \<or> pathExists g r y) rs" for x y rs
    by (auto simp: list_ex_iff pe)
  have direct': "list_ex (\<lambda>b. Some b = y) rs
                   \<Longrightarrow> list_ex (\<lambda>r. pathExists g r x \<or> pathExists g r y) rs" for x y rs
    by (auto simp: list_ex_iff pe)
  have conn: "list_ex (\<lambda>r. pathExists g r (pinBus v led ''anode'')
                          \<or> pathExists g r (pinBus v led ''cathode''))
                (placementBuses v resistor)
              \<longleftrightarrow> (\<exists>r \<in> set (placementBuses v resistor). \<exists>t.
            (pinBus v led ''anode'' = Some t \<or> pinBus v led ''cathode'' = Some t)
            \<and> (r, t) \<in> (edges g)\<^sup>*)"
    by (auto simp: list_ex_iff pe)
  show ?thesis
    unfolding checkSeriesConnections_def Let_def assms conn[symmetric]
    using direct[of "pinBus v led ''anode''" "placementBuses v resistor" "pinBus v led ''cathode''"]
      direct'[of "pinBus v led ''cathode''" "placementBuses v resistor" "pinBus v led ''anode''"]
    by auto
qed

lemma open_circuit_in_topology:
  assumes "components c \<noteq> []" and "wires c \<noteq> []"
  shows "(\<exists>d \<in> set (validateTopology v c). dtype d = ''OPEN_CIRCUIT'')
           \<longleftrightarrow> checkSeriesConnections v c (buildBusConnectivityGraph v c) \<noteq> []"
proof -
  have "d \<in> set (validateTopology v c) \<and> dtype d = ''OPEN_CIRCUIT''
          \<longleftrightarrow> d \<in> set (checkSeriesConnections v c (buildBusConnectivityGraph v c))" for d
    using assms checkSeriesConnections_dtype[of d v c "buildBusConnectivityGraph v c"]
      checkCompletePaths_dtype[of d v c "buildBusConnectivityGraph v c"]
      checkIsolatedComponents_dtype[of d c "buildBusConnectivityGraph v c"]
    by (auto simp: validateTopology_def Let_def)
  then have "(\<exists>d \<in> set (validateTopology v c). dtype d = ''OPEN_CIRCUIT'')
               \<longleftrightarrow> (\<exists>d. d \<in> set (checkSeriesConnections v c (buildBusConnectivityGraph v c)))"
    by blast
  then show ?thesis
    by (cases "checkSeriesConnections v c (buildBusConnectivityGraph v c)") auto
qed

lemma find_Some_nonempty: "find P xs = Some x \<Longrightarrow> xs \<noteq> []"
  by (cases xs) auto

text \<open>
  C4, as the code has it. Let \<open>led\<close> be the first LED-like component and \<open>resistor\<close>
  the first resistor-like one. If some resistor pin bus is the LED's anode or cathode
  bus, or is reachable from it in the bus graph, the topology layer emits no
  \<^verbatim>\<open>OPEN_CIRCUIT\<close>. If none is, and the circuit has at least one wire, the topology
  layer emits the \<^verbatim>\<open>OPEN_CIRCUIT\<close> that carries the LED's two buses and the resistor's
  buses. (A circuit without wires gets \<^verbatim>\<open>NO_CONNECTIONS\<close> and nothing else.)
\<close>

theorem open_circuit_when_wired:
  "find is_led (components c) = Some led \<and> find is_resistor (components c) = Some resistor \<longrightarrow>
     ((\<exists>r \<in> set (placementBuses v resistor). \<exists>t.
          (pinBus v led ''anode'' = Some t \<or> pinBus v led ''cathode'' = Some t)
          \<and> (t, r) \<in> (edges (buildBusConnectivityGraph v c))\<^sup>*)
        \<longrightarrow> \<not> (\<exists>d \<in> set (validateTopology v c). dtype d = ''OPEN_CIRCUIT''))
     \<and> (wires c \<noteq> []
          \<and> \<not> (\<exists>r \<in> set (placementBuses v resistor). \<exists>t.
                 (pinBus v led ''anode'' = Some t \<or> pinBus v led ''cathode'' = Some t)
                 \<and> (t, r) \<in> (edges (buildBusConnectivityGraph v c))\<^sup>*)
        \<longrightarrow> createError ''OPEN_CIRCUIT'' ''led-resistor''
              (OpenCircuitDetail [pinBus v led ''anode'', pinBus v led ''cathode'']
                 (placementBuses v resistor)) \<in> set (validateTopology v c))"
proof (intro impI conjI)
  assume f: "find is_led (components c) = Some led
               \<and> find is_resistor (components c) = Some resistor"
  then have ne: "components c \<noteq> []" by (auto dest: find_Some_nonempty)
  have s: "(t, r) \<in> (edges (buildBusConnectivityGraph v c))\<^sup>*
            \<longleftrightarrow> (r, t) \<in> (edges (buildBusConnectivityGraph v c))\<^sup>*" for t r
    by (rule sym_rtrancl_iff) (rule sym_edges_buildBusConnectivityGraph)
  have eq: "(\<exists>r \<in> set (placementBuses v resistor). \<exists>t.
               (pinBus v led ''anode'' = Some t \<or> pinBus v led ''cathode'' = Some t)
               \<and> (r, t) \<in> (edges (buildBusConnectivityGraph v c))\<^sup>*)
            = (\<exists>r \<in> set (placementBuses v resistor). \<exists>t.
               (pinBus v led ''anode'' = Some t \<or> pinBus v led ''cathode'' = Some t)
               \<and> (t, r) \<in> (edges (buildBusConnectivityGraph v c))\<^sup>*)"
    using s by blast
  have series: "checkSeriesConnections v c (buildBusConnectivityGraph v c) =
     (if \<exists>r \<in> set (placementBuses v resistor). \<exists>t.
            (pinBus v led ''anode'' = Some t \<or> pinBus v led ''cathode'' = Some t)
            \<and> (t, r) \<in> (edges (buildBusConnectivityGraph v c))\<^sup>*
      then []
      else [createError ''OPEN_CIRCUIT'' ''led-resistor''
              (OpenCircuitDetail [pinBus v led ''anode'', pinBus v led ''cathode'']
                 (placementBuses v resistor))])"
    using f checkSeriesConnections_iff[of c led resistor v "buildBusConnectivityGraph v c"]
    unfolding eq by blast
  {
    assume conn: "\<exists>r \<in> set (placementBuses v resistor). \<exists>t.
          (pinBus v led ''anode'' = Some t \<or> pinBus v led ''cathode'' = Some t)
          \<and> (t, r) \<in> (edges (buildBusConnectivityGraph v c))\<^sup>*"
    have e: "checkSeriesConnections v c (buildBusConnectivityGraph v c) = []"
      unfolding series using conn by simp
    show "\<not> (\<exists>d \<in> set (validateTopology v c). dtype d = ''OPEN_CIRCUIT'')"
    proof (cases "wires c = []")
      case True
      with ne show ?thesis by (simp add: validateTopology_def createError_def)
    next
      case False
      with ne e show ?thesis by (simp add: open_circuit_in_topology)
    qed
  }
  {
    assume a: "wires c \<noteq> []
          \<and> \<not> (\<exists>r \<in> set (placementBuses v resistor). \<exists>t.
                 (pinBus v led ''anode'' = Some t \<or> pinBus v led ''cathode'' = Some t)
                 \<and> (t, r) \<in> (edges (buildBusConnectivityGraph v c))\<^sup>*)"
    have "checkSeriesConnections v c (buildBusConnectivityGraph v c)
            = [createError ''OPEN_CIRCUIT'' ''led-resistor''
              (OpenCircuitDetail [pinBus v led ''anode'', pinBus v led ''cathode'']
                 (placementBuses v resistor))]"
      unfolding series using a by simp
    with ne a
    show "createError ''OPEN_CIRCUIT'' ''led-resistor''
              (OpenCircuitDetail [pinBus v led ''anode'', pinBus v led ''cathode'']
                 (placementBuses v resistor)) \<in> set (validateTopology v c)"
      by (simp add: validateTopology_def Let_def)
  }
qed

lemma unwired_graph_separate:
  "\<not> pathExists (buildBusConnectivityGraph exampleValidator unwiredCircuit) ''bus5-bottom'' (Some ''bus1-top'')"
  "\<not> pathExists (buildBusConnectivityGraph exampleValidator unwiredCircuit) ''bus5-bottom'' (Some ''bus5-top'')"
  "\<not> pathExists (buildBusConnectivityGraph exampleValidator unwiredCircuit) ''bus9-bottom'' (Some ''bus1-top'')"
  "\<not> pathExists (buildBusConnectivityGraph exampleValidator unwiredCircuit) ''bus9-bottom'' (Some ''bus5-top'')"
  by code_simp+

lemma example_buses:
  "pinBus exampleValidator ledD1 ''anode'' = Some ''bus5-bottom''"
  "pinBus exampleValidator ledD1 ''cathode'' = Some ''bus9-bottom''"
  "placementBuses exampleValidator resistorR1 = [''bus1-top'', ''bus5-top'']"
  by code_simp+

text \<open>The claim as stated fails on a circuit without wires: the LED and the resistor
  share no bus and neither is reachable from the other, and the topology layer reports
  \<^verbatim>\<open>NO_CONNECTIONS\<close> only.\<close>

theorem open_circuit_counterexample:
  "find is_led (components unwiredCircuit) = Some ledD1
   \<and> find is_resistor (components unwiredCircuit) = Some resistorR1
   \<and> \<not> (\<exists>r \<in> set (placementBuses exampleValidator resistorR1). \<exists>t.
          (pinBus exampleValidator ledD1 ''anode'' = Some t
           \<or> pinBus exampleValidator ledD1 ''cathode'' = Some t)
          \<and> (t, r) \<in> (edges (buildBusConnectivityGraph exampleValidator unwiredCircuit))\<^sup>*)
   \<and> validateTopology exampleValidator unwiredCircuit
       = [createError ''NO_CONNECTIONS'' ''circuit'' NoDetail]"
proof -
  have f: "find is_led (components unwiredCircuit) = Some ledD1"
    "find is_resistor (components unwiredCircuit) = Some resistorR1"
    by (simp_all add: unwiredCircuit_def is_led_def is_resistor_def resistorR1_def ledD1_def)
  have t: "validateTopology exampleValidator unwiredCircuit
             = [createError ''NO_CONNECTIONS'' ''circuit'' NoDetail]"
    by (simp add: validateTopology_def unwiredCircuit_def)
  show ?thesis
    using f t unwired_graph_separate
    by (auto simp: example_buses pathExists_iff)
qed

theorem open_circuit_when_wired_witness:
  "createError ''OPEN_CIRCUIT'' ''led-resistor''
     (OpenCircuitDetail [Some ''bus5-bottom'', Some ''bus9-bottom''] [''bus1-top'', ''bus5-top''])
     \<in> set (validateTopology exampleValidator openCircuit)
   \<and> \<not> (\<exists>d \<in> set (validateTopology exampleValidator seriesCircuit). dtype d = ''OPEN_CIRCUIT'')"
proof -
  have f: "find is_led (components openCircuit) = Some ledD1
             \<and> find is_resistor (components openCircuit) = Some resistorR1"
    "find is_led (components seriesCircuit) = Some ledD1
       \<and> find is_resistor (components seriesCircuit) = Some resistorR1"
    by (simp_all add: openCircuit_def seriesCircuit_def is_led_def is_resistor_def
          resistorR1_def ledD1_def)
  have w: "wires openCircuit \<noteq> []" by (simp add: openCircuit_def)
  have sep: "\<not> pathExists (buildBusConnectivityGraph exampleValidator openCircuit) ''bus5-bottom'' (Some ''bus1-top'')"
    "\<not> pathExists (buildBusConnectivityGraph exampleValidator openCircuit) ''bus5-bottom'' (Some ''bus5-top'')"
    "\<not> pathExists (buildBusConnectivityGraph exampleValidator openCircuit) ''bus9-bottom'' (Some ''bus1-top'')"
    "\<not> pathExists (buildBusConnectivityGraph exampleValidator openCircuit) ''bus9-bottom'' (Some ''bus5-top'')"
    by code_simp+
  have nc: "\<not> (\<exists>r \<in> set (placementBuses exampleValidator resistorR1). \<exists>t.
          (pinBus exampleValidator ledD1 ''anode'' = Some t
           \<or> pinBus exampleValidator ledD1 ''cathode'' = Some t)
          \<and> (t, r) \<in> (edges (buildBusConnectivityGraph exampleValidator openCircuit))\<^sup>*)"
    using sep by (auto simp: example_buses pathExists_iff)
  have "pathExists (buildBusConnectivityGraph exampleValidator seriesCircuit) ''bus5-bottom'' (Some ''bus5-top'')"
    by code_simp
  then have co: "\<exists>r \<in> set (placementBuses exampleValidator resistorR1). \<exists>t.
          (pinBus exampleValidator ledD1 ''anode'' = Some t
           \<or> pinBus exampleValidator ledD1 ''cathode'' = Some t)
          \<and> (t, r) \<in> (edges (buildBusConnectivityGraph exampleValidator seriesCircuit))\<^sup>*"
    by (auto simp: example_buses pathExists_iff)
  show ?thesis
    using f w nc co
      open_circuit_when_wired[of openCircuit ledD1 resistorR1 exampleValidator]
      open_circuit_when_wired[of seriesCircuit ledD1 resistorR1 exampleValidator]
    unfolding example_buses by blast
qed

section \<open>The view of a schema-valid document\<close>

lemma forEachIndexed_Nil:
  "forEachIndexed f i xs = Inr [] \<Longrightarrow> x \<in> set xs \<Longrightarrow> \<exists>j. f x j = Inr []"
proof (induction xs arbitrary: i)
  case Nil
  then show ?case by simp
next
  case (Cons y ys)
  then show ?case by (auto split: sum.splits)
qed

lemma string_field:
  "\<not> (\<not> truthy_opt x \<or> \<not> typeof_string_opt x) \<Longrightarrow> x = Some (JStr (as_string x)) \<and> as_string x \<noteq> []"
proof -
  assume a: "\<not> (\<not> truthy_opt x \<or> \<not> typeof_string_opt x)"
  then obtain j where x: "x = Some j" by (cases x) (auto simp: truthy_opt_def)
  with a obtain s where "j = JStr s" by (cases j) (auto simp: typeof_string_opt_def)
  with a x show ?thesis by (simp add: truthy_opt_def as_string_def)
qed

lemma string_entries:
  "list_all (\<lambda>e. typeof_string (snd e)) es
     \<Longrightarrow> es = map (\<lambda>(k, h). (k, JStr h)) (map (\<lambda>(pin, holeId). (pin, as_string (Some holeId))) es)"
proof (induction es)
  case Nil
  show ?case by simp
next
  case (Cons p es)
  obtain k j where p: "p = (k, j)" by (cases p)
  with Cons.prems obtain s where "j = JStr s" by (cases j) auto
  with Cons p show ?case by (auto simp: as_string_def)
qed

lemma validateComponentSchema_Nil_placement:
  assumes "validateComponentSchema x i = Inr []"
  shows "\<exists>p. js_prop x ''placement'' = Some p \<and> truthy p \<and> typeof_object p
           \<and> list_all (\<lambda>e. typeof_string (snd e)) (entries p)"
proof (cases "js_prop x ''placement''")
  case None
  with assms show ?thesis
    by (auto simp: validateComponentSchema_def Let_def split: if_splits)
next
  case (Some p)
  from assms Some have tp: "truthy p" "typeof_object p"
    and e: "\<forall>xs\<in>set (entries p). (case xs of (pin, holeId) \<Rightarrow>
               if \<not> typeof_string holeId
               then [createError ''INVALID_HOLE_ID'' (''components['' @ show_nat i @ '']'') NoDetail]
               else []) = []"
    by (auto simp: validateComponentSchema_def Let_def split: if_splits)
  have "typeof_string (snd y)" if "y \<in> set (entries p)" for y
    using e that by (cases y) (auto split: if_splits)
  with Some tp show ?thesis by (simp add: list_all_iff)
qed

lemma validateComponentSchema_Nil:
  assumes "validateComponentSchema x i = Inr []"
  shows "js_prop x ''id'' = Some (JStr (cid (component_of x))) \<and> cid (component_of x) \<noteq> []
       \<and> js_prop x ''type'' = Some (JStr (ctype (component_of x))) \<and> ctype (component_of x) \<noteq> []
       \<and> (\<exists>p. js_prop x ''placement'' = Some p \<and> truthy p \<and> typeof_object p
              \<and> entries p = map (\<lambda>(k, h). (k, JStr h)) (placement (component_of x)))"
proof -
  from assms have n: "x \<noteq> JNull" by (auto simp: validateComponentSchema_def)
  from assms n have i: "\<not> (\<not> truthy_opt (js_prop x ''id'') \<or> \<not> typeof_string_opt (js_prop x ''id''))"
    and t: "\<not> (\<not> truthy_opt (js_prop x ''type'') \<or> \<not> typeof_string_opt (js_prop x ''type''))"
    by (auto simp: validateComponentSchema_def Let_def split: if_splits)
  from validateComponentSchema_Nil_placement[OF assms]
  obtain p where p: "js_prop x ''placement'' = Some p" "truthy p" "typeof_object p"
    "list_all (\<lambda>e. typeof_string (snd e)) (entries p)"
    by blast
  show ?thesis
    using string_field[OF i] string_field[OF t] p(1-3) string_entries[OF p(4)]
    by (auto simp: component_of_def)
qed

lemma validateWireSchema_Nil:
  assumes "validateWireSchema x i = Inr []"
  shows "js_prop x ''id'' = Some (JStr (wid (wire_of x))) \<and> wid (wire_of x) \<noteq> []
       \<and> js_prop x ''from'' = Some (JStr (wire_from (wire_of x))) \<and> wire_from (wire_of x) \<noteq> []
       \<and> js_prop x ''to'' = Some (JStr (wire_to (wire_of x))) \<and> wire_to (wire_of x) \<noteq> []
       \<and> js_prop x ''properties'' = wire_properties (wire_of x)"
proof -
  from assms have n: "x \<noteq> JNull" by (auto simp: validateWireSchema_def)
  from assms n have i: "\<not> (\<not> truthy_opt (js_prop x ''id'') \<or> \<not> typeof_string_opt (js_prop x ''id''))"
    and f: "\<not> (\<not> truthy_opt (js_prop x ''from'') \<or> \<not> typeof_string_opt (js_prop x ''from''))"
    and t: "\<not> (\<not> truthy_opt (js_prop x ''to'') \<or> \<not> typeof_string_opt (js_prop x ''to''))"
    by (auto simp: validateWireSchema_def Let_def split: if_splits)
  show ?thesis
    using string_field[OF i] string_field[OF f] string_field[OF t]
    by (auto simp: wire_of_def)
qed

lemma isArray_opt_Some: "isArray_opt x \<Longrightarrow> \<exists>xs. x = Some (JArr xs)"
  by (cases x) (auto simp: isArray_opt_def elim: isArray.elims)

text \<open>The view of a document that passed the schema layer: every field the later
  layers read is the string the view holds, the placement entries are those of the
  document in the same order, and the wire properties are kept as they are.\<close>

lemma schema_valid_view:
  assumes "validateSchema doc = Inr []"
  shows "\<exists>c xs ys. js_prop doc ''circuit'' = Some c
           \<and> js_prop c ''components'' = Some (JArr xs) \<and> js_prop c ''wires'' = Some (JArr ys)
           \<and> circuit_of doc = \<lparr>components = map component_of xs, wires = map wire_of ys\<rparr>
           \<and> (\<forall>x \<in> set xs.
                 js_prop x ''id'' = Some (JStr (cid (component_of x)))
               \<and> js_prop x ''type'' = Some (JStr (ctype (component_of x)))
               \<and> (\<exists>p. js_prop x ''placement'' = Some p \<and> truthy p \<and> typeof_object p
                      \<and> entries p = map (\<lambda>(k, h). (k, JStr h)) (placement (component_of x))))
           \<and> (\<forall>y \<in> set ys.
                 js_prop y ''id'' = Some (JStr (wid (wire_of y)))
               \<and> js_prop y ''from'' = Some (JStr (wire_from (wire_of y)))
               \<and> js_prop y ''to'' = Some (JStr (wire_to (wire_of y)))
               \<and> js_prop y ''properties'' = wire_properties (wire_of y))"
proof -
  from assms obtain c where c: "js_prop doc ''circuit'' = Some c" "truthy c"
    and ce: "componentSchemaErrors (js_prop c ''components'') = Inr []"
    and we: "wireSchemaErrors (js_prop c ''wires'') = Inr []"
    and tl: "topLevelErrors c = []"
    by (auto simp: validateSchema_def split: if_splits option.splits sum.splits)
  from tl have "isArray_opt (js_prop c ''components'')" "isArray_opt (js_prop c ''wires'')"
    by (auto simp: topLevelErrors_def Let_def split: if_splits)
  then obtain xs ys where xs: "js_prop c ''components'' = Some (JArr xs)"
    and ys: "js_prop c ''wires'' = Some (JArr ys)"
    by (auto dest!: isArray_opt_Some)
  from ce xs have fx: "forEachIndexed validateComponentSchema 0 xs = Inr []"
    by (simp add: componentSchemaErrors_def)
  from we ys have fy: "forEachIndexed validateWireSchema 0 ys = Inr []"
    by (simp add: wireSchemaErrors_def)
  have "circuit_of doc = \<lparr>components = map component_of xs, wires = map wire_of ys\<rparr>"
    by (simp add: circuit_of_def c xs ys)
  moreover have "\<forall>x \<in> set xs.
                 js_prop x ''id'' = Some (JStr (cid (component_of x)))
               \<and> js_prop x ''type'' = Some (JStr (ctype (component_of x)))
               \<and> (\<exists>p. js_prop x ''placement'' = Some p \<and> truthy p \<and> typeof_object p
                      \<and> entries p = map (\<lambda>(k, h). (k, JStr h)) (placement (component_of x)))"
    using forEachIndexed_Nil[OF fx] validateComponentSchema_Nil by blast
  moreover have "\<forall>y \<in> set ys.
                 js_prop y ''id'' = Some (JStr (wid (wire_of y)))
               \<and> js_prop y ''from'' = Some (JStr (wire_from (wire_of y)))
               \<and> js_prop y ''to'' = Some (JStr (wire_to (wire_of y)))
               \<and> js_prop y ''properties'' = wire_properties (wire_of y)"
    using forEachIndexed_Nil[OF fy] validateWireSchema_Nil by blast
  ultimately show ?thesis using c xs ys by blast
qed

section \<open>The pipeline\<close>

lemma is_error_createError [simp]: "is_error (createError ty loc md)"
  by (simp add: is_error_def createError_def)

lemma forEachIndexed_all:
  assumes "\<And>x i ds. f x i = Inr ds \<Longrightarrow> list_all P ds"
  shows "forEachIndexed f i xs = Inr ds \<Longrightarrow> list_all P ds"
proof (induction xs arbitrary: i ds)
  case Nil
  then show ?case by simp
next
  case (Cons x xs)
  then show ?case
    by (auto split: sum.splits dest: assms)
qed

lemma forEachThrowing_all:
  assumes "\<And>x ds. f x = Inr ds \<Longrightarrow> list_all P ds"
  shows "forEachThrowing f xs = Inr ds \<Longrightarrow> list_all P ds"
proof (induction xs arbitrary: ds)
  case Nil
  then show ?case by simp
next
  case (Cons x xs)
  then show ?case
    by (auto split: sum.splits dest: assms)
qed

lemma schema_diag_createError:
  "ty \<in> set schemaCodes \<Longrightarrow> schema_diag (createError ty loc md)"
  by (simp add: schema_diag_def createError_def is_error_def)

lemma schema_codes:
  "schema_diag (createError ''INVALID_JSON'' loc md)"
  "schema_diag (createError ''MISSING_CIRCUIT'' loc md)"
  "schema_diag (createError ''MISSING_METADATA'' loc md)"
  "schema_diag (createError ''MISSING_COMPONENTS'' loc md)"
  "schema_diag (createError ''MISSING_WIRES'' loc md)"
  "schema_diag (createError ''INVALID_METADATA'' loc md)"
  "schema_diag (createError ''MISSING_COMPONENT_ID'' loc md)"
  "schema_diag (createError ''MISSING_COMPONENT_TYPE'' loc md)"
  "schema_diag (createError ''MISSING_PLACEMENT'' loc md)"
  "schema_diag (createError ''EMPTY_PLACEMENT'' loc md)"
  "schema_diag (createError ''INVALID_HOLE_ID'' loc md)"
  "schema_diag (createError ''INVALID_PROPERTIES'' loc md)"
  "schema_diag (createError ''MISSING_WIRE_ID'' loc md)"
  "schema_diag (createError ''MISSING_WIRE_FROM'' loc md)"
  "schema_diag (createError ''MISSING_WIRE_TO'' loc md)"
  by (rule schema_diag_createError, simp add: schemaCodes_def)+

lemma validateMetadata_schema: "list_all schema_diag (validateMetadata m)"
  by (simp add: validateMetadata_def schema_codes)

lemma list_all_concat_map:
  "(\<And>x. list_all P (f x)) \<Longrightarrow> list_all P (concat (map f xs))"
  by (induction xs) auto

lemma validateComponentSchema_schema:
  assumes "validateComponentSchema x i = Inr ds"
  shows "list_all schema_diag ds"
proof -
  have h: "list_all schema_diag (concat (map (\<lambda>(pin, holeId).
                        if \<not> typeof_string holeId
                        then [createError ''INVALID_HOLE_ID'' loc NoDetail] else []) es))" for loc es
    by (rule list_all_concat_map) (auto simp: schema_codes)
  show ?thesis
    using assms unfolding validateComponentSchema_def Let_def
    by (cases "x = JNull") (auto simp: schema_codes h split: option.splits)
qed

lemma validateWireSchema_schema:
  assumes "validateWireSchema x i = Inr ds"
  shows "list_all schema_diag ds"
  using assms unfolding validateWireSchema_def Let_def
  by (cases "x = JNull") (auto simp: schema_codes)


lemma topLevelErrors_schema: "list_all schema_diag (topLevelErrors c)"
  unfolding topLevelErrors_def Let_def
  by (auto simp: schema_codes validateMetadata_schema split: option.splits)

lemma componentSchemaErrors_schema:
  "componentSchemaErrors x = Inr ds \<Longrightarrow> list_all schema_diag ds"
  unfolding componentSchemaErrors_def
  by (auto split: option.splits json.splits
        elim: forEachIndexed_all[rotated] validateComponentSchema_schema)

lemma wireSchemaErrors_schema:
  "wireSchemaErrors x = Inr ds \<Longrightarrow> list_all schema_diag ds"
  unfolding wireSchemaErrors_def
  by (auto split: option.splits json.splits
        elim: forEachIndexed_all[rotated] validateWireSchema_schema)

lemma validateSchema_schema:
  assumes "validateSchema doc = Inr ds"
  shows "list_all schema_diag ds"
  using assms unfolding validateSchema_def
  by (auto simp: schema_codes topLevelErrors_schema
        split: if_splits option.splits sum.splits
        dest: componentSchemaErrors_schema wireSchemaErrors_schema)


lemma schema_diag_is_error: "list_all schema_diag ds \<Longrightarrow> list_all is_error ds"
  by (simp add: list_all_iff schema_diag_def)

lemma duplicateIds_fold_errors:
  "list_all is_error errs \<Longrightarrow>
   list_all is_error (snd (foldl (\<lambda>(seen, errs) i.
        if i \<noteq> []
        then (set_add i seen, errs @ (if i \<in> set seen then [createError ty i NoDetail] else []))
        else (seen, errs)) (seen, errs) ids))"
  by (induction ids arbitrary: seen errs) auto

lemma duplicateIds_errors: "list_all is_error (snd (duplicateIds ty ids))"
  unfolding duplicateIds_def by (rule duplicateIds_fold_errors) simp

lemma validateWireEndpoint_errors: "list_all is_error (validateWireEndpoint v w r ids)"
  by (simp add: validateWireEndpoint_def split: list.splits)

lemma checkComponentType_errors: "list_all is_error (fst (checkComponentType net st cmpt))"
  unfolding checkComponentType_def Let_def
  by (auto intro!: list_all_concat_map split: prod.splits sum.splits option.splits)

lemma fold_collect_all:
  assumes "\<And>s x. list_all P (fst (f s x))"
  shows "list_all P acc \<Longrightarrow>
     list_all P (fst (foldl (\<lambda>(errs, s) x. (case f s x of (es, s') \<Rightarrow> (errs @ es, s')))
                      (acc, st) xs))"
proof (induction xs arbitrary: acc st)
  case Nil
  then show ?case by simp
next
  case (Cons x xs)
  obtain es s' where e: "f st x = (es, s')" by (cases "f st x")
  with assms[of st x] have "list_all P es" by simp
  with Cons.prems have "list_all P (acc @ es)" by simp
  from Cons.IH[OF this] show ?case by (simp add: e)
qed

lemma validateReferences_errors: "list_all is_error (fst (validateReferences net v st c))"
proof -
  have t: "list_all is_error (fst (foldl (\<lambda>(errs, s) cmpt.
               (case checkComponentType net s cmpt of (es, s') \<Rightarrow> (errs @ es, s')))
             ([], st) (components c)))"
    by (rule fold_collect_all) (simp_all add: checkComponentType_errors)
  have h: "list_all is_error (concat (map (\<lambda>cmpt.
              concat (map (\<lambda>(pin, holeId).
                if holeMap v holeId = None
                then [createError ''INVALID_HOLE_REFERENCE'' (cid cmpt) NoDetail] else [])
                (placement cmpt))) (components c)))"
    by (intro list_all_concat_map) auto
  have e: "list_all is_error (concat (map (\<lambda>w.
              validateWireEndpoint v w (wire_from w) ids
              @ validateWireEndpoint v w (wire_to w) ids) (wires c)))" for ids
    by (intro list_all_concat_map) (simp add: validateWireEndpoint_errors)
  show ?thesis
    unfolding validateReferences_def Let_def
    using t h e duplicateIds_errors[of "''DUPLICATE_COMPONENT_ID''" "map cid (components c)"]
      duplicateIds_errors[of "''DUPLICATE_WIRE_ID''" "map wid (wires c)"]
    by (auto split: prod.splits)
qed

lemma checkBusConflicts_errors: "list_all is_error (checkBusConflicts v cmpt)"
  by (auto simp: list_all_iff checkBusConflicts_iff)

lemma checkNet_errors: "list_all is_error (checkNet v n)"
  by (cases n) (simp add: checkNet_def Let_def)

lemma validateElectricalRules_errors: "list_all is_error (validateElectricalRules v c)"
  unfolding validateElectricalRules_def checkPowerGroundShorts_def
  by (auto intro!: list_all_concat_map simp: checkBusConflicts_errors checkNet_errors)

lemma validateTopology_errors: "list_all is_error (validateTopology v c)"
  unfolding validateTopology_def Let_def checkSeriesConnections_def checkCompletePaths_def
    checkIsolatedComponents_def
  by (auto split: option.splits)

lemma checkPwmWire_errors: "checkPwmWire cmpt d w = Inr ds \<Longrightarrow> list_all is_error ds"
  unfolding checkPwmWire_def Let_def
  by (auto split: if_splits list.splits option.splits)

lemma validateAgainstComponentRules_errors:
  "validateAgainstComponentRules v cmpt d c = Inr ds \<Longrightarrow> list_all is_error ds"
  unfolding validateAgainstComponentRules_def Let_def
  by (auto split: if_splits option.splits sum.splits
        elim: forEachThrowing_all[rotated] checkPwmWire_errors)

lemma checkComponentRules_errors: "list_all is_error (fst (checkComponentRules net v c st cmpt))"
  unfolding checkComponentRules_def
  by (auto split: prod.splits sum.splits option.splits dest: validateAgainstComponentRules_errors)

lemma validateComponentRules_errors: "list_all is_error (fst (validateComponentRules net v st c))"
  unfolding validateComponentRules_def
  by (rule fold_collect_all) (simp_all add: checkComponentRules_errors)


lemma validate_library_failed:
  assumes "\<not> truthy_opt (componentLibrary st)" and "\<not> fst (init net st)"
  shows "validate net v st doc =
       (Inr \<lparr>valid = False,
              errors = [createError ''LIBRARY_LOAD_FAILED'' ''validator'' NoDetail],
              warnings = []\<rparr>, snd (init net st))"
proof -
  obtain l s1 where i: "init net st = (l, s1)" by (cases "init net st")
  with assms show ?thesis by (simp add: validate_def)
qed

lemma validate_after_library:
  assumes "libraryAvailable net st"
  shows "validate net v st doc =
     (case validateSchema doc of
        Inl e \<Rightarrow> (Inl e, afterLibrary net st)
      | Inr structuralErrors \<Rightarrow>
          if length structuralErrors > 0
          then (Inr \<lparr>valid = False, errors = structuralErrors, warnings = []\<rparr>,
                afterLibrary net st)
          else
            (let c = circuit_of doc;
                 (referenceErrors, st2) = validateReferences net v (afterLibrary net st) c;
                 electricalErrors = validateElectricalRules v c;
                 electricalWarnings = checkElectricalWarnings v c;
                 topologyErrors = validateTopology v c;
                 (componentErrors, st3) = validateComponentRules net v st2 c;
                 errs = structuralErrors @ referenceErrors @ electricalErrors
                        @ topologyErrors @ componentErrors
             in (Inr \<lparr>valid = (length errs = 0), errors = errs,
                        warnings = electricalWarnings\<rparr>, st3)))"
proof (cases "truthy_opt (componentLibrary st)")
  case True
  then have a: "afterLibrary net st = st" by (simp add: afterLibrary_def)
  show ?thesis unfolding a using True by (simp add: validate_def)
next
  case False
  with assms obtain s1 where i: "init net st = (True, s1)"
    by (cases "init net st") (auto simp: libraryAvailable_def)
  with False have a: "afterLibrary net st = s1" by (simp add: afterLibrary_def)
  show ?thesis unfolding a using False i by (simp add: validate_def)
qed

lemma validate_schema_failed:
  "libraryAvailable net st \<Longrightarrow> validateSchema doc = Inr errs \<Longrightarrow> errs \<noteq> [] \<Longrightarrow>
     validate net v st doc
       = (Inr \<lparr>valid = False, errors = errs, warnings = []\<rparr>, afterLibrary net st)"
  by (simp add: validate_after_library)

lemma validate_schema_throws:
  "libraryAvailable net st \<Longrightarrow> validateSchema doc = Inl e \<Longrightarrow>
     validate net v st doc = (Inl e, afterLibrary net st)"
  by (simp add: validate_after_library)

lemma validate_all_layers:
  assumes "libraryAvailable net st" and "validateSchema doc = Inr []"
  shows "\<exists>errs. fst (validate net v st doc)
                  = Inr \<lparr>valid = (errs = []), errors = errs, warnings = []\<rparr>
               \<and> list_all is_error errs"
proof -
  obtain re s2 where r: "validateReferences net v (afterLibrary net st) (circuit_of doc) = (re, s2)"
    by (cases "validateReferences net v (afterLibrary net st) (circuit_of doc)")
  obtain ce s3 where c: "validateComponentRules net v s2 (circuit_of doc) = (ce, s3)"
    by (cases "validateComponentRules net v s2 (circuit_of doc)")
  have "list_all is_error re"
    using validateReferences_errors[of net v "afterLibrary net st" "circuit_of doc"] r by simp
  moreover have "list_all is_error ce"
    using validateComponentRules_errors[of net v s2 "circuit_of doc"] c by simp
  ultimately have "list_all is_error (re @ validateElectricalRules v (circuit_of doc)
                     @ validateTopology v (circuit_of doc) @ ce)"
    by (simp add: validateElectricalRules_errors validateTopology_errors)
  moreover have "fst (validate net v st doc)
      = Inr \<lparr>valid = (re @ validateElectricalRules v (circuit_of doc)
                     @ validateTopology v (circuit_of doc) @ ce = []),
             errors = re @ validateElectricalRules v (circuit_of doc)
                     @ validateTopology v (circuit_of doc) @ ce, warnings = []\<rparr>"
    using assms r c
    by (simp add: validate_after_library checkElectricalWarnings_def Let_def)
  ultimately show ?thesis by blast
qed

lemma forEachIndexed_returns:
  "(\<And>x i. x \<in> set xs \<Longrightarrow> \<exists>ds. f x i = Inr ds) \<Longrightarrow> \<exists>ds. forEachIndexed f i xs = Inr ds"
proof (induction xs arbitrary: i)
  case Nil
  show ?case by simp
next
  case (Cons x xs)
  obtain ds where "f x i = Inr ds" using Cons.prems[of x i] by auto
  moreover obtain ds' where "forEachIndexed f (Suc i) xs = Inr ds'"
    using Cons.IH[of "Suc i"] Cons.prems by auto
  ultimately show ?case by simp
qed

lemma validateComponentSchema_returns:
  "x \<noteq> JNull \<Longrightarrow> \<exists>ds. validateComponentSchema x i = Inr ds"
  by (simp add: validateComponentSchema_def Let_def)

lemma validateWireSchema_returns:
  "x \<noteq> JNull \<Longrightarrow> \<exists>ds. validateWireSchema x i = Inr ds"
  by (simp add: validateWireSchema_def Let_def)

lemma componentSchemaErrors_returns:
  "\<not> hasNullElement x \<Longrightarrow> \<exists>ds. componentSchemaErrors x = Inr ds"
  unfolding componentSchemaErrors_def hasNullElement_def
  by (auto split: option.splits json.splits
        intro!: forEachIndexed_returns validateComponentSchema_returns)

lemma wireSchemaErrors_returns:
  "\<not> hasNullElement x \<Longrightarrow> \<exists>ds. wireSchemaErrors x = Inr ds"
  unfolding wireSchemaErrors_def hasNullElement_def
  by (auto split: option.splits json.splits
        intro!: forEachIndexed_returns validateWireSchema_returns)

lemma validateSchema_returns:
  assumes "\<not> hasNullElement (circuitField doc ''components'')"
    and "\<not> hasNullElement (circuitField doc ''wires'')"
  shows "\<exists>ds. validateSchema doc = Inr ds"
proof (cases "js_prop doc ''circuit''")
  case None
  then show ?thesis by (simp add: validateSchema_def)
next
  case (Some c)
  obtain ce where "componentSchemaErrors (js_prop c ''components'') = Inr ce"
    using componentSchemaErrors_returns assms(1) Some by (auto simp: circuitField_def)
  moreover obtain we where "wireSchemaErrors (js_prop c ''wires'') = Inr we"
    using wireSchemaErrors_returns assms(2) Some by (auto simp: circuitField_def)
  ultimately show ?thesis using Some by (simp add: validateSchema_def)
qed

lemma componentSchemaErrors_not_array:
  "\<not> isArray_opt x \<Longrightarrow> componentSchemaErrors x = Inr []"
  by (auto simp: componentSchemaErrors_def isArray_opt_def split: option.splits json.splits)



text \<open>
  C1. In every result \<^verbatim>\<open>validate\<close> returns, \<^verbatim>\<open>valid\<close> is true exactly when the
  \<^verbatim>\<open>errors\<close> list is empty, which is exactly when no diagnostic of the result, in
  \<^verbatim>\<open>errors\<close> or in \<^verbatim>\<open>warnings\<close>, has severity \<^verbatim>\<open>error\<close>: what is in \<^verbatim>\<open>warnings\<close> has no
  part in it.
\<close>

theorem valid_iff_no_errors:
  "fst (validate net v st doc) = Inr res \<longrightarrow>
     (valid res \<longleftrightarrow> errors res = [])
     \<and> (valid res \<longleftrightarrow> \<not> (\<exists>d \<in> set (errors res @ warnings res). severity d = ''error''))"
proof
  assume r: "fst (validate net v st doc) = Inr res"
  have "(valid res \<longleftrightarrow> errors res = []) \<and> list_all is_error (errors res) \<and> warnings res = []"
  proof (cases "libraryAvailable net st")
    case False
    then show ?thesis
      using r validate_library_failed[of st net v doc] by (auto simp: libraryAvailable_def)
  next
    case True
    show ?thesis
    proof (cases "validateSchema doc")
      case (Inl e)
      with True r show ?thesis by (simp add: validate_schema_throws)
    next
      case (Inr errs)
      show ?thesis
      proof (cases "errs = []")
        case False
        then show ?thesis
          using r validate_schema_failed[OF True Inr False, of v]
            validateSchema_schema[OF Inr]
          by (auto dest: schema_diag_is_error)
      next
        case e: True
        then show ?thesis
          using r validate_all_layers[OF True, of doc v] Inr by auto
      qed
    qed
  qed
  then show "(valid res \<longleftrightarrow> errors res = [])
     \<and> (valid res \<longleftrightarrow> \<not> (\<exists>d \<in> set (errors res @ warnings res). severity d = ''error''))"
    by (cases "errors res") (auto simp: is_error_def)
qed

theorem valid_iff_no_errors_witness:
  "(\<exists>res. fst (validate servingNetwork exampleValidator newRegistry workingDocument) = Inr res
          \<and> valid res \<and> errors res = [])
   \<and> (\<exists>res. fst (validate servingNetwork exampleValidator newRegistry noComponentsDocument)
                = Inr res
            \<and> \<not> valid res \<and> errors res \<noteq> [])"
proof -
  have w: "fst (validate servingNetwork exampleValidator newRegistry workingDocument)
             = Inr \<lparr>valid = True, errors = [], warnings = []\<rparr>"
    by code_simp
  have n: "fst (validate servingNetwork exampleValidator newRegistry noComponentsDocument)
             = Inr \<lparr>valid = False,
                    errors = [createError ''MISSING_COMPONENTS'' ''circuit'' NoDetail],
                    warnings = []\<rparr>"
    by code_simp
  show ?thesis
    using w n
      valid_iff_no_errors[of servingNetwork exampleValidator newRegistry workingDocument
        "\<lparr>valid = True, errors = [], warnings = []\<rparr>"]
      valid_iff_no_errors[of servingNetwork exampleValidator newRegistry noComponentsDocument
        "\<lparr>valid = False,
          errors = [createError ''MISSING_COMPONENTS'' ''circuit'' NoDetail],
          warnings = []\<rparr>"]
    by simp
qed



text \<open>
  C8, as the code has it. When the fetch of the library does not deliver a body,
  \<^verbatim>\<open>init\<close> returns \<^verbatim>\<open>false\<close> (it catches what was thrown). When the library is missing
  and \<^verbatim>\<open>init\<close> returns \<^verbatim>\<open>false\<close>, \<^verbatim>\<open>validate\<close> returns the result that is not valid, with
  the single error \<^verbatim>\<open>LIBRARY_LOAD_FAILED\<close> and no warning. And for every registry,
  initialized or not, \<^verbatim>\<open>validate\<close> returns a result on every document whose
  \<^verbatim>\<open>circuit.components\<close> and \<^verbatim>\<open>circuit.wires\<close> hold no \<^verbatim>\<open>null\<close> element.
\<close>

theorem library_failure_and_no_throw:
  "((\<forall>data. net (fetchCount st) LibraryRequest \<noteq> Body data) \<longrightarrow> \<not> fst (init net st))
   \<and> (\<not> truthy_opt (componentLibrary st) \<and> \<not> fst (init net st) \<longrightarrow>
        fst (validate net v st doc)
          = Inr \<lparr>valid = False,
                 errors = [createError ''LIBRARY_LOAD_FAILED'' ''validator'' NoDetail],
                 warnings = []\<rparr>)
   \<and> (\<not> hasNullElement (circuitField doc ''components'')
        \<and> \<not> hasNullElement (circuitField doc ''wires'') \<longrightarrow>
        (\<exists>res. fst (validate net v st doc) = Inr res))"
proof (intro conjI impI)
  assume "\<forall>data. net (fetchCount st) LibraryRequest \<noteq> Body data"
  then show "\<not> fst (init net st)"
    by (cases "net (fetchCount st) LibraryRequest") (simp_all add: init_def Let_def)
next
  assume "\<not> truthy_opt (componentLibrary st) \<and> \<not> fst (init net st)"
  then show "fst (validate net v st doc)
          = Inr \<lparr>valid = False,
                 errors = [createError ''LIBRARY_LOAD_FAILED'' ''validator'' NoDetail],
                 warnings = []\<rparr>"
    by (simp add: validate_library_failed)
next
  assume a: "\<not> hasNullElement (circuitField doc ''components'')
        \<and> \<not> hasNullElement (circuitField doc ''wires'')"
  then obtain errs where e: "validateSchema doc = Inr errs"
    using validateSchema_returns[of doc] by auto
  show "\<exists>res. fst (validate net v st doc) = Inr res"
  proof (cases "libraryAvailable net st")
    case False
    then show ?thesis
      using validate_library_failed[of st net v doc] by (auto simp: libraryAvailable_def)
  next
    case True
    show ?thesis
    proof (cases "errs = []")
      case False
      with True e show ?thesis by (simp add: validate_schema_failed)
    next
      case e': True
      with True e validate_all_layers[of net st doc v] show ?thesis by auto
    qed
  qed
qed

theorem library_failure_and_no_throw_witness:
  "fst (validate offlineNetwork exampleValidator newRegistry validDocument)
     = Inr \<lparr>valid = False,
            errors = [createError ''LIBRARY_LOAD_FAILED'' ''validator'' NoDetail],
            warnings = []\<rparr>
   \<and> (\<exists>res. fst (validate servingNetwork exampleValidator loadedRegistry validDocument) = Inr res)"
proof -
  have o: "\<forall>data. offlineNetwork (fetchCount newRegistry) LibraryRequest \<noteq> Body data"
    by (simp add: offlineNetwork_def)
  have n: "\<not> truthy_opt (componentLibrary newRegistry)"
    by (simp add: newRegistry_def truthy_opt_def)
  have d: "\<not> hasNullElement (circuitField validDocument ''components'')
             \<and> \<not> hasNullElement (circuitField validDocument ''wires'')"
    by code_simp
  show ?thesis
    using o n d
      library_failure_and_no_throw[of offlineNetwork newRegistry exampleValidator validDocument]
      library_failure_and_no_throw[of servingNetwork loadedRegistry exampleValidator validDocument]
    by blast
qed

text \<open>The claim as stated fails twice. With every fetch rejected, \<^verbatim>\<open>init\<close> returns
  \<^verbatim>\<open>false\<close>: it throws nothing. And with the library loaded, \<^verbatim>\<open>validate\<close> throws a
  \<^verbatim>\<open>TypeError\<close> on the document whose only component is \<^verbatim>\<open>null\<close>.\<close>

theorem library_failure_and_no_throw_counterexample:
  "init offlineNetwork newRegistry = (False, newRegistry\<lparr>fetchCount := 1\<rparr>)
   \<and> truthy_opt (componentLibrary loadedRegistry)
   \<and> fst (validate servingNetwork exampleValidator loadedRegistry nullComponentDocument)
       = Inl TypeError"
  by code_simp

section \<open>The cache of the registry\<close>

lemma loadComponent_cached:
  "map_of (loadedComponents st) ty = Some d \<Longrightarrow> loadComponent net st ty = (Inr d, st)"
  by (simp add: loadComponent_def)

lemma loadComponent_success_cached:
  "loadComponent net st ty = (Inr d, st') \<Longrightarrow> map_of (loadedComponents st') ty = Some d"
  unfolding loadComponent_def Let_def
  by (auto simp: update_conv' split: option.splits if_splits response.splits)


text \<open>
  C9. After a call of \<^verbatim>\<open>loadComponent\<close> for a type has returned a definition, a second
  call for the same type returns the same definition and leaves the registry as it
  was, whatever the network would answer: in particular it makes no fetch.
\<close>

theorem loadComponent_idempotent:
  "loadComponent net st componentType = (Inr componentDef, st')
     \<longrightarrow> loadComponent net' st' componentType = (Inr componentDef, st')
         \<and> fetchCount (snd (loadComponent net' st' componentType)) = fetchCount st'"
  by (auto dest!: loadComponent_success_cached simp: loadComponent_cached)

theorem loadComponent_idempotent_witness:
  "loadComponent offlineNetwork (snd (loadComponent servingNetwork loadedRegistry ''resistor''))
     ''resistor''
   = loadComponent servingNetwork loadedRegistry ''resistor''
   \<and> fetchCount (snd (loadComponent servingNetwork loadedRegistry ''resistor'')) = 2"
proof -
  have f: "loadComponent servingNetwork loadedRegistry ''resistor''
           = (Inr (js_prop resistorDefinition ''component''),
              snd (loadComponent servingNetwork loadedRegistry ''resistor''))"
    by code_simp
  have c: "fetchCount (snd (loadComponent servingNetwork loadedRegistry ''resistor'')) = 2"
    by code_simp
  show ?thesis
    using c f
      loadComponent_idempotent[of servingNetwork loadedRegistry "''resistor''"
        "js_prop resistorDefinition ''component''"
        "snd (loadComponent servingNetwork loadedRegistry ''resistor'')" offlineNetwork]
    by simp
qed

end
